theory Spec2Isabelle
  imports Main
begin

section \<open>The network index of nomad/structs/network.go\<close>

text \<open>
  A shallow embedding of \<^verbatim>\<open>nomad/structs/network.go\<close>: the index of the used ports of a
  node, the intake of reservations and allocations, the two selectors of dynamic ports and
  the two offer engines. Mutation of the receiver \<^verbatim>\<open>idx\<close> is explicit state passing, an
  error return is a value of type \<open>error\<close>, and a run-time panic of Go is the constructor
  \<open>Panic\<close>. The functions embedded are \<^verbatim>\<open>getUsedPortsFor\<close>, \<^verbatim>\<open>SetNode\<close>, \<^verbatim>\<open>AddAllocs\<close>,
  \<^verbatim>\<open>AddReserved\<close>, \<^verbatim>\<open>AddReservedPorts\<close>, \<^verbatim>\<open>yieldIP\<close>, \<^verbatim>\<open>incIP\<close>, \<^verbatim>\<open>AssignPorts\<close>,
  \<^verbatim>\<open>AssignTaskNetwork\<close>, \<^verbatim>\<open>getDynamicPortsPrecise\<close>, \<^verbatim>\<open>getDynamicPortsStochastic\<close> and
  \<^verbatim>\<open>isPortReserved\<close>.
\<close>

subsection \<open>Constants\<close>

definition DefaultMinDynamicPort :: int where
  "DefaultMinDynamicPort = 20000"

definition DefaultMaxDynamicPort :: int where
  "DefaultMaxDynamicPort = 32000"

definition maxRandPortAttempts :: nat where
  "maxRandPortAttempts = 20"

definition MaxValidPort :: int where
  "MaxValidPort = 65536"

subsection \<open>Go integers, errors and formatting\<close>

text \<open>
  Go's \<^verbatim>\<open>int\<close> is a signed 64-bit integer on the platforms Nomad supports. Values are
  modelled as \<open>int\<close>; \<open>wrap64\<close> is written at every addition and subtraction of the
  source, and \<open>to_uint\<close> is the conversion \<^verbatim>\<open>uint(x)\<close>.
\<close>

definition wrap64 :: "int \<Rightarrow> int" where
  "wrap64 x = (x + 2 ^ 63) mod 2 ^ 64 - 2 ^ 63"

definition to_uint :: "int \<Rightarrow> nat" where
  "to_uint x = nat (x mod 2 ^ 64)"

datatype error = Err string | Panic string

definition digit_char :: "nat \<Rightarrow> char" where
  "digit_char d = ''0123456789'' ! d"

function show_nat :: "nat \<Rightarrow> string" where
  "show_nat n = (if n < 10 then [digit_char n] else show_nat (n div 10) @ [digit_char (n mod 10)])"
  by pat_completeness auto
termination
  by (relation "measure id") auto

declare show_nat.simps [simp del]

text \<open>The verb \<^verbatim>\<open>%d\<close> of \<^verbatim>\<open>fmt.Sprintf\<close>.\<close>

definition show_int :: "int \<Rightarrow> string" where
  "show_int i = (if i < 0 then CHR ''-'' # show_nat (nat (- i)) else show_nat (nat i))"

text \<open>The verb \<^verbatim>\<open>%v\<close> on a slice of strings: the elements between brackets, separated by blanks.\<close>

fun join_blank :: "string list \<Rightarrow> string" where
  "join_blank [] = []"
| "join_blank [s] = s"
| "join_blank (s # t # ss) = s @ '' '' @ join_blank (t # ss)"

definition show_strings :: "string list \<Rightarrow> string" where
  "show_strings ss = ''['' @ join_blank ss @ '']''"

subsection \<open>Bitmap\<close>

text \<open>
  Modelled from the spec: the type \<^verbatim>\<open>Bitmap\<close> and its methods (\<^verbatim>\<open>nomad/structs/bitmap.go\<close>
  is not among the sources). The spec gives it exactly \<open>MaxValidPort\<close> bits and the
  semantic type "set of port numbers", with \<^verbatim>\<open>set\<close>, \<^verbatim>\<open>check\<close>, \<^verbatim>\<open>copy\<close> and
  \<^verbatim>\<open>indexes_in_range(value, lo, hi)\<close>, which returns in ascending order every index of
  \<open>[lo, hi]\<close>, both ends included, whose bit equals \<open>value\<close>. An index beyond the capacity
  is a precondition violation (the caller must range-check): \<open>in_bitmap\<close> is that
  precondition. Where a call of \<^verbatim>\<open>Set\<close> or \<^verbatim>\<open>Check\<close> in \<^verbatim>\<open>network.go\<close> is dominated by
  the guard \<^verbatim>\<open>port.Value < 0 || port.Value >= MaxValidPort\<close> the operation is used as it
  is; where it is not, the model makes the violation a \<open>Panic\<close> branch.
\<close>

type_synonym Bitmap = "nat set"

definition NewBitmap :: Bitmap where
  "NewBitmap = {}"

definition in_bitmap :: "nat \<Rightarrow> bool" where
  "in_bitmap i = (i < nat MaxValidPort)"

definition Check :: "Bitmap \<Rightarrow> nat \<Rightarrow> bool" where
  "Check b i = (i \<in> b)"

definition Set_bit :: "Bitmap \<Rightarrow> nat \<Rightarrow> Bitmap" where
  "Set_bit b i = insert i b"

definition IndexesInRange :: "Bitmap \<Rightarrow> bool \<Rightarrow> nat \<Rightarrow> nat \<Rightarrow> int list" where
  "IndexesInRange b v lo hi =
     map int (filter (\<lambda>i. Check b i = v) [lo ..< min (Suc hi) (nat MaxValidPort)])"

subsection \<open>Data model\<close>

text \<open>
  Modelled from the spec: the struct declarations used by \<^verbatim>\<open>network.go\<close>
  (\<^verbatim>\<open>nomad/structs/structs.go\<close> is not among the sources); the fields are the ones
  \<^verbatim>\<open>network.go\<close> reads and writes. A pointer to a struct is the struct itself: a nil
  element of a slice is not a value of the model.
\<close>

record Port =
  Label :: string
  Value :: int
  To :: int
  HostNetwork :: string

record DNSConfig =
  Servers :: "string list"
  Searches :: "string list"
  Options :: "string list"

record NetworkResource =
  Mode :: string
  Device :: string
  CIDR :: string
  IP :: string
  MBits :: int
  DNS :: "DNSConfig option"
  ReservedPorts :: "Port list"
  DynamicPorts :: "Port list"

record NodeNetworkAddress =
  Family :: string
  Alias :: string
  Address :: string
  AddrReservedPorts :: string
  Gateway :: string

record NodeNetworkResource =
  NodeNetMode :: string
  NodeNetDevice :: string
  Addresses :: "NodeNetworkAddress list"

record AllocatedPortMapping =
  PortLabel :: string
  PortValue :: int
  PortTo :: int
  HostIP :: string

type_synonym AllocatedPorts = "AllocatedPortMapping list"

record NetworkIndex =
  TaskNetworks :: "NetworkResource list"
  GroupNetworks :: "NodeNetworkResource list"
  HostNetworks :: "string \<rightharpoonup> NodeNetworkAddress list"
  UsedPorts :: "string \<rightharpoonup> Bitmap"
  AvailBandwidth :: "string \<rightharpoonup> int"
  UsedBandwidth :: "string \<rightharpoonup> int"
  MinDynamicPort :: int
  MaxDynamicPort :: int

definition NewNetworkIndex :: NetworkIndex where
  "NewNetworkIndex =
     \<lparr>TaskNetworks = [], GroupNetworks = [], HostNetworks = Map.empty, UsedPorts = Map.empty,
      AvailBandwidth = Map.empty, UsedBandwidth = Map.empty,
      MinDynamicPort = DefaultMinDynamicPort, MaxDynamicPort = DefaultMaxDynamicPort\<rparr>"

text \<open>Reading a Go map at a missing key gives the zero value: a nil slice, the integer 0.\<close>

definition hostAddrs :: "NetworkIndex \<Rightarrow> string \<Rightarrow> NodeNetworkAddress list" where
  "hostAddrs idx alias = (case HostNetworks idx alias of None \<Rightarrow> [] | Some as \<Rightarrow> as)"

definition bandwidth :: "(string \<rightharpoonup> int) \<Rightarrow> string \<Rightarrow> int" where
  "bandwidth m dev = (case m dev of None \<Rightarrow> 0 | Some v \<Rightarrow> v)"

text \<open>
  The set of ports marked for an address: the bitmap \<^verbatim>\<open>idx.UsedPorts[ip]\<close>, an absent
  (nil) entry having no port.
\<close>

definition portsOn :: "NetworkIndex \<Rightarrow> string \<Rightarrow> Bitmap" where
  "portsOn idx ip = (case UsedPorts idx ip of None \<Rightarrow> {} | Some b \<Rightarrow> b)"

subsection \<open>getUsedPortsFor\<close>

text \<open>
  A missing bitmap is taken from the pool and cleared, or created, and stored in the index:
  either way the index gets a bitmap without a bit set. The pool itself (\<^verbatim>\<open>sync.Pool\<close>, a
  concurrent recycler of memory) is not modelled; a bitmap it hands out is taken to be
  owned by the receiver alone, as the pool's contract in the spec says.

  A Go \<^verbatim>\<open>Bitmap\<close> is a slice, so the variable \<^verbatim>\<open>used\<close> shares its bits with the entry
  \<^verbatim>\<open>idx.UsedPorts[ip]\<close>. The model keeps the bitmaps in the map and writes
  \<^verbatim>\<open>used.Set(p)\<close> as \<open>setUsed idx ip p\<close>, an update of that entry.
\<close>

definition getUsedPortsFor :: "NetworkIndex \<Rightarrow> string \<Rightarrow> Bitmap \<times> NetworkIndex" where
  "getUsedPortsFor idx ip =
     (case UsedPorts idx ip of
        Some used \<Rightarrow> (used, idx)
      | None \<Rightarrow> (NewBitmap, idx\<lparr>UsedPorts := (UsedPorts idx)(ip \<mapsto> NewBitmap)\<rparr>))"

definition setUsed :: "NetworkIndex \<Rightarrow> string \<Rightarrow> nat \<Rightarrow> NetworkIndex" where
  "setUsed idx ip p = idx\<lparr>UsedPorts := (UsedPorts idx)(ip \<mapsto> Set_bit (portsOn idx ip) p)\<rparr>"

subsection \<open>AddReserved and AddReservedPorts\<close>

text \<open>
  The two nested loops of \<^verbatim>\<open>AddReserved\<close> run over \<^verbatim>\<open>n.ReservedPorts\<close> and then over
  \<^verbatim>\<open>n.DynamicPorts\<close>: one loop over their concatenation. The loop returns \<open>Inl\<close> where
  the source returns from the function at an invalid port, and \<open>Inr\<close> when it runs to its
  end. The triple is \<open>(collide, reasons, idx)\<close>.
\<close>

fun AddReserved_loop ::
  "string \<Rightarrow> Port list \<Rightarrow> bool \<times> string list \<times> NetworkIndex \<Rightarrow>
   (bool \<times> string list \<times> NetworkIndex) + (bool \<times> string list \<times> NetworkIndex)" where
  "AddReserved_loop ip [] acc = Inr acc"
| "AddReserved_loop ip (port # ports) (collide, reasons, idx) =
     (if Value port < 0 \<or> Value port \<ge> MaxValidPort
      then Inl (True, [''invalid port '' @ show_int (Value port)], idx)
      else if Check (portsOn idx ip) (to_uint (Value port))
      then AddReserved_loop ip ports
             (True, reasons @ [''port '' @ show_int (Value port) @ '' already in use''], idx)
      else AddReserved_loop ip ports (collide, reasons, setUsed idx ip (to_uint (Value port))))"

definition AddReserved :: "NetworkIndex \<Rightarrow> NetworkResource \<Rightarrow> bool \<times> string list \<times> NetworkIndex" where
  "AddReserved idx n =
     (let (used, idx1) = getUsedPortsFor idx (IP n) in
      case AddReserved_loop (IP n) (ReservedPorts n @ DynamicPorts n) (False, [], idx1) of
        Inl r \<Rightarrow> r
      | Inr (collide, reasons, idx2) \<Rightarrow>
          (collide, reasons,
           idx2\<lparr>UsedBandwidth := (UsedBandwidth idx2)
                  (Device n \<mapsto> wrap64 (bandwidth (UsedBandwidth idx2) (Device n) + MBits n))\<rparr>))"

fun AddReservedPorts_loop ::
  "AllocatedPorts \<Rightarrow> bool \<times> string list \<times> NetworkIndex \<Rightarrow> bool \<times> string list \<times> NetworkIndex" where
  "AddReservedPorts_loop [] acc = acc"
| "AddReservedPorts_loop (port # ports) (collide, reasons, idx) =
     (let (used, idx1) = getUsedPortsFor idx (HostIP port) in
      if PortValue port < 0 \<or> PortValue port \<ge> MaxValidPort
      then (True, [''invalid port '' @ show_int (PortValue port)], idx1)
      else if Check (portsOn idx1 (HostIP port)) (to_uint (PortValue port))
      then AddReservedPorts_loop ports
             (True, reasons @ [''port '' @ show_int (PortValue port) @ '' already in use''], idx1)
      else AddReservedPorts_loop ports
             (collide, reasons, setUsed idx1 (HostIP port) (to_uint (PortValue port))))"

definition AddReservedPorts :: "NetworkIndex \<Rightarrow> AllocatedPorts \<Rightarrow> bool \<times> string list \<times> NetworkIndex" where
  "AddReservedPorts idx ports = AddReservedPorts_loop ports (False, [], idx)"

subsection \<open>AddAllocs\<close>

text \<open>
  Modelled from the spec: the declarations of \<^verbatim>\<open>Allocation\<close>, \<^verbatim>\<open>AllocatedResources\<close> and
  \<^verbatim>\<open>Resources\<close> (not among the sources). \<^verbatim>\<open>TerminalStatus()\<close> is the predicate the caller
  provides: a field of the record. Go visits the keys of a map in an order it does not
  specify; \<open>Tasks\<close> and \<open>TaskResources\<close> are the entries of the map in the order of the
  visit, so that a theorem about every list is a theorem about every order.
\<close>

record Resources =
  ResNetworks :: "NetworkResource list"

record AllocatedTaskResources =
  TaskNetworkList :: "NetworkResource list"

record AllocatedSharedResources =
  SharedNetworks :: "NetworkResource list"
  SharedPorts :: AllocatedPorts

record AllocatedResources =
  Tasks :: "(string \<times> AllocatedTaskResources) list"
  Shared :: AllocatedSharedResources

record Allocation =
  ID :: string
  TerminalStatus :: bool
  AllocResources :: "AllocatedResources option"
  TaskResources :: "(string \<times> Resources) list"

text \<open>
  The state of the loops of \<^verbatim>\<open>AddAllocs\<close> is \<open>(collide, reason, idx)\<close>: the two named
  results and the index.
\<close>

fun AddAllocs_networks ::
  "string \<Rightarrow> NetworkResource list \<Rightarrow> bool \<times> string \<times> NetworkIndex \<Rightarrow> bool \<times> string \<times> NetworkIndex" where
  "AddAllocs_networks aid [] acc = acc"
| "AddAllocs_networks aid (network # networks) (collide, reason, idx) =
     (case AddReserved idx network of
        (c, r, idx1) \<Rightarrow>
          if c
          then AddAllocs_networks aid networks
                 (True,
                  ''collision when reserving port for network '' @ IP network @ '' in alloc '' @ aid
                    @ '': '' @ show_strings r,
                  idx1)
          else AddAllocs_networks aid networks (collide, reason, idx1))"

text \<open>
  The loop over the tasks is written twice in the source, over
  \<^verbatim>\<open>alloc.AllocatedResources.Tasks\<close> and over \<^verbatim>\<open>alloc.TaskResources\<close>; the second one
  starts its reason with \<^verbatim>\<open>(deprecated) \<close>. Here \<open>pre\<close> is that start, and each task comes
  with its \<^verbatim>\<open>Networks\<close>.
\<close>

fun AddAllocs_tasks ::
  "string \<Rightarrow> string \<Rightarrow> (string \<times> NetworkResource list) list \<Rightarrow>
   bool \<times> string \<times> NetworkIndex \<Rightarrow> bool \<times> string \<times> NetworkIndex" where
  "AddAllocs_tasks pre aid [] acc = acc"
| "AddAllocs_tasks pre aid ((task, networks) # rest) (collide, reason, idx) =
     (case networks of
        [] \<Rightarrow> AddAllocs_tasks pre aid rest (collide, reason, idx)
      | n # _ \<Rightarrow>
          (case AddReserved idx n of
             (c, r, idx1) \<Rightarrow>
               if c
               then AddAllocs_tasks pre aid rest
                      (True,
                       pre @ ''collision when reserving port for network '' @ IP n @ '' in task ''
                         @ task @ '' of alloc '' @ aid @ '': '' @ show_strings r,
                       idx1)
               else AddAllocs_tasks pre aid rest (collide, reason, idx1)))"

definition AddAllocs_alloc ::
  "Allocation \<Rightarrow> bool \<times> string \<times> NetworkIndex \<Rightarrow> bool \<times> string \<times> NetworkIndex" where
  "AddAllocs_alloc alloc acc =
     (case acc of (collide, reason, idx) \<Rightarrow>
      if TerminalStatus alloc then acc
      else case AllocResources alloc of
          Some ar \<Rightarrow>
            if length (SharedPorts (Shared ar)) > 0
            then (case AddReservedPorts idx (SharedPorts (Shared ar)) of
                    (c, r, idx1) \<Rightarrow>
                      if c
                      then (True,
                            ''collision when reserving port for alloc '' @ ID alloc @ '': ''
                              @ show_strings r,
                            idx1)
                      else (collide, reason, idx1))
            else AddAllocs_tasks [] (ID alloc)
                   (map (\<lambda>(task, resources). (task, TaskNetworkList resources)) (Tasks ar))
                   (AddAllocs_networks (ID alloc) (SharedNetworks (Shared ar)) acc)
        | None \<Rightarrow>
            AddAllocs_tasks ''(deprecated) '' (ID alloc)
              (map (\<lambda>(task, resources). (task, ResNetworks resources)) (TaskResources alloc))
              acc)"

fun AddAllocs_loop ::
  "Allocation list \<Rightarrow> bool \<times> string \<times> NetworkIndex \<Rightarrow> bool \<times> string \<times> NetworkIndex" where
  "AddAllocs_loop [] acc = acc"
| "AddAllocs_loop (alloc # allocs) acc = AddAllocs_loop allocs (AddAllocs_alloc alloc acc)"

definition AddAllocs :: "NetworkIndex \<Rightarrow> Allocation list \<Rightarrow> bool \<times> string \<times> NetworkIndex" where
  "AddAllocs idx allocs = AddAllocs_loop allocs (False, [], idx)"

subsection \<open>Random numbers\<close>

text \<open>
  Modelled from the spec: \<^verbatim>\<open>math/rand\<close> of the Go library. The source of randomness is a
  sequence of naturals; \<^verbatim>\<open>rand.Intn(n)\<close> takes the next one, reduced modulo \<open>n\<close>, and
  panics unless \<open>0 < n\<close>. Every sequence of results that \<^verbatim>\<open>rand.Intn\<close> can give comes from
  some sequence of naturals, so a theorem about every \<open>g\<close> holds whatever is drawn.
\<close>

type_synonym rand = "nat \<Rightarrow> nat"

definition Intn :: "rand \<Rightarrow> int \<Rightarrow> error + (int \<times> rand)" where
  "Intn g n =
     (if n \<le> 0 then Inl (Panic ''invalid argument to Intn'')
      else Inr (int (g 0) mod n, (\<lambda>i. g (Suc i))))"

definition zero_rand :: rand where
  "zero_rand = (\<lambda>i. 0)"

subsection \<open>The selectors of dynamic ports\<close>

fun isPortReserved :: "int list \<Rightarrow> int \<Rightarrow> bool" where
  "isPortReserved [] needle = False"
| "isPortReserved (item # haystack) needle =
     (if item = needle then True else isPortReserved haystack needle)"

text \<open>
  The label \<^verbatim>\<open>PICK\<close> with its \<^verbatim>\<open>goto\<close>: one port is drawn until it is free or the attempts
  are used up. \<^verbatim>\<open>nodeUsed\<close> may be nil (\<open>None\<close>); \<^verbatim>\<open>nodeUsed.Check\<close> has no guard before
  it, so an index outside the bitmap panics.
\<close>

function PICK ::
  "Bitmap option \<Rightarrow> int \<Rightarrow> int \<Rightarrow> int list \<Rightarrow> int list \<Rightarrow> nat \<Rightarrow> rand \<Rightarrow> (error + int) \<times> rand" where
  "PICK nodeUsed minDynamicPort maxDynamicPort reserved dynamic attempts g =
     (if attempts + 1 > maxRandPortAttempts
      then (Inl (Err ''stochastic dynamic port selection failed''), g)
      else case Intn g (wrap64 (maxDynamicPort - minDynamicPort)) of
          Inl e \<Rightarrow> (Inl e, g)
        | Inr (j, g') \<Rightarrow>
            (let randPort = wrap64 (minDynamicPort + j) in
             if nodeUsed \<noteq> None \<and> \<not> in_bitmap (to_uint randPort)
             then (Inl (Panic ''index out of range''), g')
             else if (case nodeUsed of None \<Rightarrow> False | Some b \<Rightarrow> Check b (to_uint randPort))
             then PICK nodeUsed minDynamicPort maxDynamicPort reserved dynamic (attempts + 1) g'
             else if isPortReserved reserved randPort \<or> isPortReserved dynamic randPort
             then PICK nodeUsed minDynamicPort maxDynamicPort reserved dynamic (attempts + 1) g'
             else (Inr randPort, g')))"
  by pat_completeness auto
termination
  by (relation "measure (\<lambda>(nodeUsed, mn, mx, reserved, dynamic, attempts, g).
                   Suc maxRandPortAttempts - attempts)") auto

declare PICK.simps [simp del]

fun stochastic_loop ::
  "nat \<Rightarrow> Bitmap option \<Rightarrow> int \<Rightarrow> int \<Rightarrow> int list \<Rightarrow> int list \<Rightarrow> rand \<Rightarrow> (error + int list) \<times> rand" where
  "stochastic_loop 0 nodeUsed minDynamicPort maxDynamicPort reserved dynamic g = (Inr dynamic, g)"
| "stochastic_loop (Suc k) nodeUsed minDynamicPort maxDynamicPort reserved dynamic g =
     (case PICK nodeUsed minDynamicPort maxDynamicPort reserved dynamic 0 g of
        (Inl e, g') \<Rightarrow> (Inl e, g')
      | (Inr randPort, g') \<Rightarrow>
          stochastic_loop k nodeUsed minDynamicPort maxDynamicPort reserved (dynamic @ [randPort]) g')"

text \<open>The loop \<^verbatim>\<open>for i := 0; i < count; i++\<close> runs \<open>nat count\<close> times.\<close>

definition getDynamicPortsStochastic ::
  "Bitmap option \<Rightarrow> int \<Rightarrow> int \<Rightarrow> Port list \<Rightarrow> int \<Rightarrow> rand \<Rightarrow> (error + int list) \<times> rand" where
  "getDynamicPortsStochastic nodeUsed minDynamicPort maxDynamicPort reservedPorts count g =
     stochastic_loop (nat count) nodeUsed minDynamicPort maxDynamicPort
       (map Value reservedPorts) [] g"

text \<open>
  The precise selector. \<^verbatim>\<open>usedSet.Set(uint(port.Value))\<close> has no guard before it; the swaps
  of the loop exchange the elements at \<open>i\<close> and \<open>j\<close>; \<^verbatim>\<open>availablePorts[:numDyn]\<close> panics
  when \<open>numDyn\<close> is negative.
\<close>

fun setReserved :: "Bitmap \<Rightarrow> Port list \<Rightarrow> error + Bitmap" where
  "setReserved usedSet [] = Inr usedSet"
| "setReserved usedSet (port # reserved) =
     (if in_bitmap (to_uint (Value port))
      then setReserved (Set_bit usedSet (to_uint (Value port))) reserved
      else Inl (Panic ''index out of range''))"

fun swaps :: "nat \<Rightarrow> nat \<Rightarrow> int list \<Rightarrow> rand \<Rightarrow> (error + int list) \<times> rand" where
  "swaps 0 i availablePorts g = (Inr availablePorts, g)"
| "swaps (Suc k) i availablePorts g =
     (case Intn g (int (length availablePorts)) of
        Inl e \<Rightarrow> (Inl e, g)
      | Inr (j, g') \<Rightarrow>
          swaps k (Suc i)
            (availablePorts[i := availablePorts ! nat j, nat j := availablePorts ! i]) g')"

definition getDynamicPortsPrecise ::
  "Bitmap option \<Rightarrow> int \<Rightarrow> int \<Rightarrow> Port list \<Rightarrow> int \<Rightarrow> rand \<Rightarrow> (error + int list) \<times> rand" where
  "getDynamicPortsPrecise nodeUsed minDynamicPort maxDynamicPort reserved numDyn g =
     (case setReserved (case nodeUsed of Some b \<Rightarrow> b | None \<Rightarrow> NewBitmap) reserved of
        Inl e \<Rightarrow> (Inl e, g)
      | Inr usedSet \<Rightarrow>
          (let availablePorts =
                 IndexesInRange usedSet False (to_uint minDynamicPort) (to_uint maxDynamicPort)
           in if int (length availablePorts) < numDyn
              then (Inl (Err ''dynamic port selection failed''), g)
              else case swaps (nat numDyn) 0 availablePorts g of
                  (Inl e, g') \<Rightarrow> (Inl e, g')
                | (Inr shuffled, g') \<Rightarrow>
                    if numDyn < 0 then (Inl (Panic ''slice bounds out of range''), g')
                    else (Inr (take (nat numDyn) shuffled), g')))"

text \<open>
  Both offer engines call the stochastic selector and, when it returns an error, the
  precise one with the same arguments. A panic is not an error value: it ends the call.
\<close>

definition pickDynamicPorts ::
  "Bitmap option \<Rightarrow> int \<Rightarrow> int \<Rightarrow> Port list \<Rightarrow> int \<Rightarrow> rand \<Rightarrow> (error + int list) \<times> rand" where
  "pickDynamicPorts used minDynamicPort maxDynamicPort reserved count g =
     (case getDynamicPortsStochastic used minDynamicPort maxDynamicPort reserved count g of
        (Inr dynPorts, g') \<Rightarrow> (Inr dynPorts, g')
      | (Inl (Panic s), g') \<Rightarrow> (Inl (Panic s), g')
      | (Inl (Err s), g') \<Rightarrow>
          getDynamicPortsPrecise used minDynamicPort maxDynamicPort reserved count g')"

subsection \<open>AssignPorts\<close>

text \<open>
  \<^verbatim>\<open>reservedIdx\<close> is a Go map from the name of a host network to a slice of ports, read at
  missing keys: a function whose value is the nil slice by default.

  The loop over the addresses of a reserved port leaves in its first round, by one of the
  two \<^verbatim>\<open>return\<close>s or by \<^verbatim>\<open>break\<close>: it is a case distinction on the list of addresses.
  Its \<^verbatim>\<open>addrErr\<close> is never assigned, so an empty list gives the error
  \<^verbatim>\<open>no addresses available\<close>. The bitmap from \<open>getUsedPortsFor\<close> is never nil.
\<close>

fun AssignPorts_reserved ::
  "Port list \<Rightarrow> AllocatedPorts \<Rightarrow> (string \<Rightarrow> Port list) \<Rightarrow> NetworkIndex \<Rightarrow>
   (error + AllocatedPorts \<times> (string \<Rightarrow> Port list)) \<times> NetworkIndex" where
  "AssignPorts_reserved [] offer reservedIdx idx = (Inr (offer, reservedIdx), idx)"
| "AssignPorts_reserved (port # ports) offer reservedIdx idx =
     (let reservedIdx1 = reservedIdx(HostNetwork port := reservedIdx (HostNetwork port) @ [port]) in
      case hostAddrs idx (HostNetwork port) of
        [] \<Rightarrow>
          (Inl (Err (''no addresses available for '' @ HostNetwork port @ '' network'')), idx)
      | addr # _ \<Rightarrow>
          (let (used, idx1) = getUsedPortsFor idx (Address addr) in
           if Value port < 0 \<or> Value port \<ge> MaxValidPort
           then (Inl (Err (''invalid port '' @ show_int (Value port) @ '' (out of range)'')), idx1)
           else if Check used (to_uint (Value port))
           then (Inl (Err (''reserved port collision '' @ Label port @ ''=''
                            @ show_int (Value port))), idx1)
           else AssignPorts_reserved ports
                  (offer @ [\<lparr>PortLabel = Label port, PortValue = Value port, PortTo = To port,
                             HostIP = Address addr\<rparr>])
                  reservedIdx1 idx1))"

text \<open>
  The loop over the addresses of a dynamic port gives \<open>(allocPort, addrErr)\<close> as they are
  when the loop is left, or the panic that ended the call. \<^verbatim>\<open>dynPorts[0]\<close> panics on an
  empty slice.
\<close>

fun AssignPorts_addrs ::
  "Port \<Rightarrow> Port list \<Rightarrow> NodeNetworkAddress list \<Rightarrow> error option \<Rightarrow> NetworkIndex \<Rightarrow> rand \<Rightarrow>
   (error + AllocatedPortMapping option \<times> error option) \<times> NetworkIndex \<times> rand" where
  "AssignPorts_addrs port reserved [] addrErr idx g = (Inr (None, addrErr), idx, g)"
| "AssignPorts_addrs port reserved (addr # addrs) addrErr idx g =
     (let (used, idx1) = getUsedPortsFor idx (Address addr) in
      case pickDynamicPorts (Some used) (MinDynamicPort idx) (MaxDynamicPort idx) reserved 1 g of
        (Inl (Panic s), g') \<Rightarrow> (Inl (Panic s), idx1, g')
      | (Inl (Err s), g') \<Rightarrow> AssignPorts_addrs port reserved addrs (Some (Err s)) idx1 g'
      | (Inr dynPorts, g') \<Rightarrow>
          (case dynPorts of
             [] \<Rightarrow> (Inl (Panic ''index out of range''), idx1, g')
           | v # _ \<Rightarrow>
               (Inr (Some \<lparr>PortLabel = Label port, PortValue = v,
                           PortTo = (if To port = - 1 then v else To port),
                           HostIP = Address addr\<rparr>, None), idx1, g')))"

fun AssignPorts_dynamic ::
  "Port list \<Rightarrow> AllocatedPorts \<Rightarrow> (string \<Rightarrow> Port list) \<Rightarrow> NetworkIndex \<Rightarrow> rand \<Rightarrow>
   (error + AllocatedPorts) \<times> NetworkIndex \<times> rand" where
  "AssignPorts_dynamic [] offer reservedIdx idx g = (Inr offer, idx, g)"
| "AssignPorts_dynamic (port # ports) offer reservedIdx idx g =
     (case AssignPorts_addrs port (reservedIdx (HostNetwork port))
             (hostAddrs idx (HostNetwork port)) None idx g of
        (Inl e, idx1, g1) \<Rightarrow> (Inl e, idx1, g1)
      | (Inr (None, Some e), idx1, g1) \<Rightarrow> (Inl e, idx1, g1)
      | (Inr (None, None), idx1, g1) \<Rightarrow>
          (Inl (Err (''no addresses available for '' @ HostNetwork port @ '' network'')), idx1, g1)
      | (Inr (Some allocPort, _), idx1, g1) \<Rightarrow>
          AssignPorts_dynamic ports (offer @ [allocPort]) reservedIdx idx1 g1)"

text \<open>The result is the offer or the error, the index after the call and the rest of the random sequence.\<close>

definition AssignPorts ::
  "NetworkIndex \<Rightarrow> NetworkResource \<Rightarrow> rand \<Rightarrow> (error + AllocatedPorts) \<times> NetworkIndex \<times> rand" where
  "AssignPorts idx ask g =
     (case AssignPorts_reserved (ReservedPorts ask) [] (\<lambda>alias. []) idx of
        (Inl e, idx1) \<Rightarrow> (Inl e, idx1, g)
      | (Inr (offer, reservedIdx), idx1) \<Rightarrow>
          AssignPorts_dynamic (DynamicPorts ask) offer reservedIdx idx1 g)"

subsection \<open>AssignTaskNetwork\<close>

text \<open>
  Modelled from the spec: package \<^verbatim>\<open>net\<close> of the Go library, taken as a parameter. An
  address is its slice of octets; \<open>ParseCIDR\<close> gives the address and the network of a CIDR
  that parses, \<open>MaskIP ip ipnet\<close> is \<^verbatim>\<open>ip.Mask(ipnet.Mask)\<close>, \<open>Contains\<close> is
  \<^verbatim>\<open>ipnet.Contains\<close> and \<open>IPString\<close> is \<^verbatim>\<open>ip.String()\<close>.
\<close>

type_synonym IPAddr = "nat list"

record 'n NetLib =
  ParseCIDR :: "string \<Rightarrow> (IPAddr \<times> 'n) option"
  MaskIP :: "IPAddr \<Rightarrow> 'n \<Rightarrow> IPAddr"
  Contains :: "'n \<Rightarrow> IPAddr \<Rightarrow> bool"
  IPString :: "IPAddr \<Rightarrow> string"

text \<open>
  \<^verbatim>\<open>incIP\<close> goes over the octets from right to left: \<open>incOctets\<close> is the loop on the
  reversed address. An octet is a byte, so the increment wraps at 256.
\<close>

fun incOctets :: "nat list \<Rightarrow> nat list" where
  "incOctets [] = []"
| "incOctets (b # bs) =
     (if (b + 1) mod 256 > 0 then (b + 1) mod 256 # bs else (b + 1) mod 256 # incOctets bs)"

definition incIP :: "IPAddr \<Rightarrow> IPAddr" where
  "incIP ip = rev (incOctets (rev ip))"

text \<open>The loop over \<^verbatim>\<open>ask.ReservedPorts\<close> in the callback; \<^verbatim>\<open>used\<close> may be nil.\<close>

fun checkReserved :: "Bitmap option \<Rightarrow> Port list \<Rightarrow> error option" where
  "checkReserved used [] = None"
| "checkReserved used (port # ports) =
     (if Value port < 0 \<or> Value port \<ge> MaxValidPort
      then Some (Err (''invalid port '' @ show_int (Value port) @ '' (out of range)''))
      else if (case used of None \<Rightarrow> False | Some b \<Rightarrow> Check b (to_uint (Value port)))
      then Some (Err (''reserved port collision '' @ Label port @ ''='' @ show_int (Value port)))
      else checkReserved used ports)"

text \<open>
  The loop at \<^verbatim>\<open>BUILD_OFFER\<close> writes the ports into \<^verbatim>\<open>offer.DynamicPorts\<close>, by index; an
  index beyond the slice panics. The slice shares its array with \<^verbatim>\<open>ask.DynamicPorts\<close>: the
  caller's ask is written too, which no later round of the same call reads, the callback
  stopping the iteration right after.
\<close>

fun BUILD_OFFER :: "Port list \<Rightarrow> int list \<Rightarrow> error + Port list" where
  "BUILD_OFFER dynamicPorts [] = Inr dynamicPorts"
| "BUILD_OFFER [] (port # dynPorts) = Inl (Panic ''index out of range'')"
| "BUILD_OFFER (d # dynamicPorts) (port # dynPorts) =
     (case BUILD_OFFER dynamicPorts dynPorts of
        Inl e \<Rightarrow> Inl e
      | Inr rest \<Rightarrow> Inr (d\<lparr>Value := port, To := (if To d = - 1 then port else To d)\<rparr> # rest))"

text \<open>
  The callback of \<^verbatim>\<open>AssignTaskNetwork\<close>: \<open>Inr offer\<close> where it sets \<^verbatim>\<open>out\<close>, clears
  \<^verbatim>\<open>err\<close> and returns true, \<open>Inl e\<close> where it sets \<^verbatim>\<open>err\<close> and returns false (or panics).
\<close>

definition offerOn ::
  "'n NetLib \<Rightarrow> NetworkIndex \<Rightarrow> NetworkResource \<Rightarrow> NetworkResource \<Rightarrow> IPAddr \<Rightarrow> rand \<Rightarrow>
   (error + NetworkResource) \<times> rand" where
  "offerOn lib idx ask n offerIP g =
     (let offerIPStr = IPString lib offerIP;
          availBandwidth = bandwidth (AvailBandwidth idx) (Device n);
          usedBandwidth = bandwidth (UsedBandwidth idx) (Device n)
      in if wrap64 (usedBandwidth + MBits ask) > availBandwidth
         then (Inl (Err ''bandwidth exceeded''), g)
         else let used = UsedPorts idx offerIPStr in
           case checkReserved used (ReservedPorts ask) of
             Some e \<Rightarrow> (Inl e, g)
           | None \<Rightarrow>
               (case pickDynamicPorts used (MinDynamicPort idx) (MaxDynamicPort idx)
                       (ReservedPorts ask) (int (length (DynamicPorts ask))) g of
                  (Inl e, g') \<Rightarrow> (Inl e, g')
                | (Inr dynPorts, g') \<Rightarrow>
                    (case BUILD_OFFER (DynamicPorts ask) dynPorts of
                       Inl e \<Rightarrow> (Inl e, g')
                     | Inr dynamicPorts \<Rightarrow>
                         (Inr \<lparr>Mode = Mode ask, Device = Device n, CIDR = [], IP = offerIPStr,
                               MBits = MBits ask, DNS = DNS ask,
                               ReservedPorts = ReservedPorts ask,
                               DynamicPorts = dynamicPorts\<rparr>, g'))))"

text \<open>
  \<^verbatim>\<open>yieldIP\<close>: the loop over the addresses of one network runs as long as the network
  contains the address, which may be for ever; its result is \<open>None\<close> then. It ends with
  \<open>Inl (out, err)\<close> when the callback stops the iteration or panics, and with \<open>Inr err\<close>
  when the addresses of the network are used up.
\<close>

partial_function (option) yieldIP_addrs ::
  "'n NetLib \<Rightarrow> NetworkIndex \<Rightarrow> NetworkResource \<Rightarrow> NetworkResource \<Rightarrow> 'n \<Rightarrow> IPAddr \<Rightarrow>
   error option \<Rightarrow> rand \<Rightarrow>
   (((NetworkResource option \<times> error option) + error option) \<times> rand) option" where
  "yieldIP_addrs lib idx ask n ipnet ip err g =
     (if Contains lib ipnet ip
      then (case offerOn lib idx ask n ip g of
              (Inr offer, g') \<Rightarrow> Some (Inl (Some offer, None), g')
            | (Inl (Panic s), g') \<Rightarrow> Some (Inl (None, Some (Panic s)), g')
            | (Inl (Err s), g') \<Rightarrow>
                yieldIP_addrs lib idx ask n ipnet (incIP ip) (Some (Err s)) g')
      else Some (Inr err, g))"

fun yieldIP ::
  "'n NetLib \<Rightarrow> NetworkIndex \<Rightarrow> NetworkResource \<Rightarrow> NetworkResource list \<Rightarrow> error option \<Rightarrow> rand \<Rightarrow>
   ((NetworkResource option \<times> error option) \<times> rand) option" where
  "yieldIP lib idx ask [] err g = Some ((None, err), g)"
| "yieldIP lib idx ask (n # ns) err g =
     (case ParseCIDR lib (CIDR n) of
        None \<Rightarrow> yieldIP lib idx ask ns err g
      | Some (ip, ipnet) \<Rightarrow>
          (case yieldIP_addrs lib idx ask n ipnet (MaskIP lib ip ipnet) err g of
             None \<Rightarrow> None
           | Some (Inl result, g') \<Rightarrow> Some (result, g')
           | Some (Inr err', g') \<Rightarrow> yieldIP lib idx ask ns err' g'))"

text \<open>The result is \<open>(out, err)\<close> and the rest of the random sequence, when the call returns.\<close>

definition AssignTaskNetwork ::
  "'n NetLib \<Rightarrow> NetworkIndex \<Rightarrow> NetworkResource \<Rightarrow> rand \<Rightarrow>
   ((NetworkResource option \<times> error option) \<times> rand) option" where
  "AssignTaskNetwork lib idx ask g =
     yieldIP lib idx ask (TaskNetworks idx) (Some (Err ''no networks available'')) g"

subsection \<open>SetNode\<close>

text \<open>
  Modelled from the spec: the declarations of \<^verbatim>\<open>Node\<close>, \<^verbatim>\<open>NodeResources\<close> and
  \<^verbatim>\<open>NodeReservedResources\<close> (not among the sources), and \<^verbatim>\<open>ParsePortRanges\<close>, which is
  the parameter \<open>parse\<close>: it gives the message of its error or the ports.

  \<^verbatim>\<open>SetNode\<close> returns the index as the call leaves it, with the error if there is one. No
  call of \<^verbatim>\<open>used.Set\<close> in it is dominated by the guard on valid ports: the guard of the
  legacy path lets \<open>MaxValidPort\<close> itself through, and the ports of \<^verbatim>\<open>ParsePortRanges\<close> are
  not checked again.
\<close>

record NodeResources =
  Networks :: "NetworkResource list"
  NodeNetworks :: "NodeNetworkResource list"
  NodeMinDynamicPort :: int
  NodeMaxDynamicPort :: int

record NodeReservedNetworkResources =
  ReservedHostPorts :: string

record NodeReservedResources =
  ReservedNetworks :: NodeReservedNetworkResources

record Node =
  NodeRes :: "NodeResources option"
  LegacyResources :: "Resources option"
  ReservedResources :: "NodeReservedResources option"
  Reserved :: "Resources option"

fun setPorts :: "string \<Rightarrow> nat list \<Rightarrow> NetworkIndex \<Rightarrow> NetworkIndex \<times> error option" where
  "setPorts ip [] idx = (idx, None)"
| "setPorts ip (p # ps) idx =
     (if in_bitmap p then setPorts ip ps (setUsed idx ip p)
      else (idx, Some (Panic ''index out of range'')))"

text \<open>The legacy path over \<^verbatim>\<open>node.Reserved.Networks\<close>; its state is \<open>(globalResPorts, idx)\<close>.\<close>

fun SetNode_reservedPorts ::
  "string \<Rightarrow> Port list \<Rightarrow> nat list \<times> NetworkIndex \<Rightarrow> (nat list \<times> NetworkIndex) \<times> error option" where
  "SetNode_reservedPorts ip [] st = (st, None)"
| "SetNode_reservedPorts ip (p # ports) (globalResPorts, idx) =
     (if Value p > MaxValidPort \<or> Value p < 0
      then ((globalResPorts, idx),
            Some (Err (''invalid port '' @ show_int (Value p) @ '' for reserved_ports'')))
      else if in_bitmap (to_uint (Value p))
      then SetNode_reservedPorts ip ports
             (globalResPorts @ [to_uint (Value p)], setUsed idx ip (to_uint (Value p)))
      else ((globalResPorts @ [to_uint (Value p)], idx), Some (Panic ''index out of range'')))"

fun SetNode_reserved ::
  "NetworkResource list \<Rightarrow> nat list \<times> NetworkIndex \<Rightarrow> (nat list \<times> NetworkIndex) \<times> error option" where
  "SetNode_reserved [] st = (st, None)"
| "SetNode_reserved (n # ns) (globalResPorts, idx) =
     (let (used, idx1) = getUsedPortsFor idx (IP n) in
      case SetNode_reservedPorts (IP n) (ReservedPorts n @ DynamicPorts n) (globalResPorts, idx1) of
        (st, Some e) \<Rightarrow> (st, Some e)
      | ((globalResPorts2, idx2), None) \<Rightarrow>
          SetNode_reserved ns
            (globalResPorts2,
             if Device n \<noteq> []
             then idx2\<lparr>UsedBandwidth := (UsedBandwidth idx2)
                         (Device n \<mapsto> wrap64 (bandwidth (UsedBandwidth idx2) (Device n) + MBits n))\<rparr>
             else idx2))"

definition SetNode_global ::
  "(string \<Rightarrow> string + nat list) \<Rightarrow> NetworkIndex \<Rightarrow> Node \<Rightarrow> (nat list \<times> NetworkIndex) \<times> error option" where
  "SetNode_global parse idx node =
     (let reservedHostPorts =
            (case ReservedResources node of
               Some rr \<Rightarrow> ReservedHostPorts (ReservedNetworks rr)
             | None \<Rightarrow> [])
      in if ReservedResources node \<noteq> None \<and> reservedHostPorts \<noteq> []
         then (case parse reservedHostPorts of
                 Inl msg \<Rightarrow> (([], idx), Some (Err (''error parsing reserved_ports: '' @ msg)))
               | Inr resPorts \<Rightarrow> ((resPorts, idx), None))
         else case Reserved node of
             Some r \<Rightarrow> SetNode_reserved (ResNetworks r) ([], idx)
           | None \<Rightarrow> (([], idx), None))"

fun SetNode_taskNetworks ::
  "nat list \<Rightarrow> NetworkResource list \<Rightarrow> NetworkIndex \<Rightarrow> NetworkIndex \<times> error option" where
  "SetNode_taskNetworks globalResPorts [] idx = (idx, None)"
| "SetNode_taskNetworks globalResPorts (n # ns) idx =
     (if Device n \<noteq> []
      then (let idx1 = idx\<lparr>TaskNetworks := TaskNetworks idx @ [n],
                           AvailBandwidth := (AvailBandwidth idx)(Device n \<mapsto> MBits n)\<rparr>;
                (used, idx2) = getUsedPortsFor idx1 (IP n)
            in case setPorts (IP n) globalResPorts idx2 of
                 (idx3, Some e) \<Rightarrow> (idx3, Some e)
               | (idx3, None) \<Rightarrow> SetNode_taskNetworks globalResPorts ns idx3)
      else SetNode_taskNetworks globalResPorts ns idx)"

text \<open>
  The verb \<^verbatim>\<open>%q\<close> puts the alias between double quotes; the escapes it writes for quotes
  and unprintable characters inside the alias are left out.
\<close>

definition quoted :: "string \<Rightarrow> string" where
  "quoted s = CHR 0x22 # s @ [CHR 0x22]"

fun SetNode_addresses ::
  "(string \<Rightarrow> string + nat list) \<Rightarrow> nat list \<Rightarrow> NodeNetworkAddress list \<Rightarrow> NetworkIndex \<Rightarrow>
   NetworkIndex \<times> error option" where
  "SetNode_addresses parse globalResPorts [] idx = (idx, None)"
| "SetNode_addresses parse globalResPorts (a # as) idx =
     (let idx1 = idx\<lparr>HostNetworks := (HostNetworks idx)(Alias a \<mapsto> hostAddrs idx (Alias a) @ [a])\<rparr>;
          (used, idx2) = getUsedPortsFor idx1 (Address a)
      in case setPorts (Address a) globalResPorts idx2 of
           (idx3, Some e) \<Rightarrow> (idx3, Some e)
         | (idx3, None) \<Rightarrow>
             if AddrReservedPorts a \<noteq> []
             then (case parse (AddrReservedPorts a) of
                     Inl msg \<Rightarrow>
                       (idx3, Some (Err (''error parsing reserved_ports for network ''
                                          @ quoted (Alias a) @ '': '' @ msg)))
                   | Inr rp \<Rightarrow>
                       (case setPorts (Address a) rp idx3 of
                          (idx4, Some e) \<Rightarrow> (idx4, Some e)
                        | (idx4, None) \<Rightarrow> SetNode_addresses parse globalResPorts as idx4))
             else SetNode_addresses parse globalResPorts as idx3)"

fun SetNode_nodeNetworks ::
  "(string \<Rightarrow> string + nat list) \<Rightarrow> nat list \<Rightarrow> NodeNetworkResource list \<Rightarrow> NetworkIndex \<Rightarrow>
   NetworkIndex \<times> error option" where
  "SetNode_nodeNetworks parse globalResPorts [] idx = (idx, None)"
| "SetNode_nodeNetworks parse globalResPorts (n # ns) idx =
     (case SetNode_addresses parse globalResPorts (Addresses n) idx of
        (idx1, Some e) \<Rightarrow> (idx1, Some e)
      | (idx1, None) \<Rightarrow> SetNode_nodeNetworks parse globalResPorts ns idx1)"

text \<open>
  The three places where \<^verbatim>\<open>SetNode\<close> reads the node apart from the reserved ports: the
  task networks, in the new layout of the node or the old one; the node networks; and the
  range of the dynamic ports, which applies when it is positive.
\<close>

definition taskNetworksOf :: "Node \<Rightarrow> NetworkResource list" where
  "taskNetworksOf node =
     (let networks = (case NodeRes node of Some nr \<Rightarrow> Networks nr | None \<Rightarrow> [])
      in if NodeRes node \<noteq> None \<and> length networks \<noteq> 0 then networks
         else case LegacyResources node of Some r \<Rightarrow> ResNetworks r | None \<Rightarrow> [])"

definition nodeNetworksOf :: "Node \<Rightarrow> NodeNetworkResource list" where
  "nodeNetworksOf node =
     (case NodeRes node of
        Some nr \<Rightarrow> if length (NodeNetworks nr) \<noteq> 0 then NodeNetworks nr else []
      | None \<Rightarrow> [])"

definition setDynamicPortRange :: "Node \<Rightarrow> NetworkIndex \<Rightarrow> NetworkIndex" where
  "setDynamicPortRange node idx =
     (let idx1 =
            (case NodeRes node of
               Some nr \<Rightarrow>
                 if NodeMinDynamicPort nr > 0 then idx\<lparr>MinDynamicPort := NodeMinDynamicPort nr\<rparr>
                 else idx
             | None \<Rightarrow> idx)
      in case NodeRes node of
           Some nr \<Rightarrow>
             if NodeMaxDynamicPort nr > 0 then idx1\<lparr>MaxDynamicPort := NodeMaxDynamicPort nr\<rparr>
             else idx1
         | None \<Rightarrow> idx1)"

definition SetNode ::
  "(string \<Rightarrow> string + nat list) \<Rightarrow> NetworkIndex \<Rightarrow> Node \<Rightarrow> NetworkIndex \<times> error option" where
  "SetNode parse idx node =
     (case SetNode_global parse idx node of
        ((globalResPorts, idx1), Some e) \<Rightarrow> (idx1, Some e)
      | ((globalResPorts, idx1), None) \<Rightarrow>
          (case SetNode_taskNetworks globalResPorts (taskNetworksOf node) idx1 of
             (idx2, Some e) \<Rightarrow> (idx2, Some e)
           | (idx2, None) \<Rightarrow>
               (case SetNode_nodeNetworks parse globalResPorts (nodeNetworksOf node) idx2 of
                  (idx3, Some e) \<Rightarrow> (idx3, Some e)
                | (idx3, None) \<Rightarrow> (setDynamicPortRange node idx3, None))))"

text \<open>
  \<^verbatim>\<open>Release\<close> hands the bitmaps to the pool and leaves the index as it is; the caller that
  runs \<^verbatim>\<open>SetNode\<close> again starts from an index without used ports.
\<close>

definition clearUsedPorts :: "NetworkIndex \<Rightarrow> NetworkIndex" where
  "clearUsedPorts idx = idx\<lparr>UsedPorts := Map.empty\<rparr>"

section \<open>Notions of the specification\<close>

text \<open>A valid port value: the guard of the source, negated.\<close>

definition validPort :: "int \<Rightarrow> bool" where
  "validPort v = (0 \<le> v \<and> v < MaxValidPort)"

text \<open>The values of a Go \<^verbatim>\<open>int\<close>.\<close>

definition int64 :: "int \<Rightarrow> bool" where
  "int64 x = (- (2 ^ 63) \<le> x \<and> x < 2 ^ 63)"

text \<open>The port numbers that a list of port mappings names for an address, and those of a list of ports.\<close>

definition marks :: "AllocatedPorts \<Rightarrow> string \<Rightarrow> nat set" where
  "marks ps ip = {p. \<exists>q \<in> set ps. HostIP q = ip \<and> PortValue q = int p}"

definition portMarks :: "Port list \<Rightarrow> nat set" where
  "portMarks ps = {p. \<exists>q \<in> set ps. Value q = int p}"

text \<open>
  A sequence of calls of \<^verbatim>\<open>AddReserved\<close> and \<^verbatim>\<open>AddReservedPorts\<close> on one index:
  \<open>run_calls\<close> gives whether some call reported a collision, and the index after the last
  call; \<open>reserved_by c ip\<close> are the ports that the call \<open>c\<close> reserves for the address
  \<open>ip\<close>.
\<close>

datatype call = CallAddReserved NetworkResource | CallAddReservedPorts AllocatedPorts

fun do_call :: "NetworkIndex \<Rightarrow> call \<Rightarrow> bool \<times> string list \<times> NetworkIndex" where
  "do_call idx (CallAddReserved n) = AddReserved idx n"
| "do_call idx (CallAddReservedPorts ports) = AddReservedPorts idx ports"

fun run_calls :: "call list \<Rightarrow> NetworkIndex \<Rightarrow> bool \<times> NetworkIndex" where
  "run_calls [] idx = (False, idx)"
| "run_calls (c # cs) idx =
     (case do_call idx c of
        (collide, reasons, idx1) \<Rightarrow>
          (case run_calls cs idx1 of (collide', idx2) \<Rightarrow> (collide \<or> collide', idx2)))"

fun reserved_by :: "call \<Rightarrow> string \<Rightarrow> nat set" where
  "reserved_by (CallAddReserved n) ip =
     (if ip = IP n then portMarks (ReservedPorts n @ DynamicPorts n) else {})"
| "reserved_by (CallAddReservedPorts ports) ip = marks ports ip"

text \<open>
  Two reports of \<^verbatim>\<open>AddAllocs\<close> one after the other: there is a collision when one of them
  has one, and the reason is the one of the later report that has a collision.
\<close>

fun later_wins :: "bool \<times> string \<Rightarrow> bool \<times> string \<times> NetworkIndex \<Rightarrow> bool \<times> string \<times> NetworkIndex" where
  "later_wins (c, r) (c', r', idx') = (c \<or> c', if c' then r' else r, idx')"

text \<open>The index after \<^verbatim>\<open>AddAllocs\<close>.\<close>

definition index_after :: "NetworkIndex \<Rightarrow> Allocation list \<Rightarrow> NetworkIndex" where
  "index_after idx allocs = snd (snd (AddAllocs idx allocs))"

text \<open>
  The free ports of the dynamic range: the port numbers from \<open>minDynamicPort\<close> to
  \<open>maxDynamicPort\<close>, both included as the precise selector has them, that are not set in the
  bitmap (a nil bitmap has no port set) and are not the value of a reserved port.
\<close>

definition freePorts :: "Bitmap option \<Rightarrow> int \<Rightarrow> int \<Rightarrow> Port list \<Rightarrow> nat set" where
  "freePorts nodeUsed minDynamicPort maxDynamicPort reserved =
     {p. minDynamicPort \<le> int p \<and> int p \<le> maxDynamicPort \<and> int p < MaxValidPort
         \<and> p \<notin> (case nodeUsed of None \<Rightarrow> {} | Some b \<Rightarrow> b)
         \<and> int p \<notin> Value ` set reserved}"

text \<open>
  \<open>keeps idx idx'\<close>: the index \<open>idx'\<close> is \<open>idx\<close> but for the map of the bitmaps, and marks
  the same ports for every address.
\<close>

definition keeps :: "NetworkIndex \<Rightarrow> NetworkIndex \<Rightarrow> bool" where
  "keeps idx idx' =
     (idx'\<lparr>UsedPorts := UsedPorts idx\<rparr> = idx \<and> (\<forall>ip. portsOn idx' ip = portsOn idx ip))"

text \<open>
  A reserved port of an ask that \<^verbatim>\<open>AssignPorts\<close> accepts: its network has an address, its
  value is valid and not in use on the first address.
\<close>

definition firstAddrFree :: "NetworkIndex \<Rightarrow> Port \<Rightarrow> bool" where
  "firstAddrFree idx port =
     (case hostAddrs idx (HostNetwork port) of
        [] \<Rightarrow> False
      | addr # _ \<Rightarrow>
          validPort (Value port) \<and> \<not> Check (portsOn idx (Address addr)) (nat (Value port)))"

text \<open>Two indexes that mark the same ports for every address.\<close>

definition same_ports :: "NetworkIndex \<Rightarrow> NetworkIndex \<Rightarrow> bool" where
  "same_ports a b = (\<forall>ip. portsOn a ip = portsOn b ip)"

text \<open>
  A second description of \<^verbatim>\<open>AddAllocs\<close>, after the contract of the spec, to compare with
  the loops of the source. \<open>alloc_calls\<close> are the calls of \<^verbatim>\<open>AddReservedPorts\<close> and
  \<^verbatim>\<open>AddReserved\<close> that an allocation stands for, each with the text that starts the reason
  of its collision: none for a terminal allocation; the list of shared ports when there is
  one; otherwise the networks of the task group and the first network of each task; for an
  allocation of the old layout the first network of each task. \<open>report\<close> makes the calls
  in turn: a call that reports a collision sets \<open>collide\<close> and replaces the reason, and the
  calls after it are made all the same.
\<close>

fun task_calls :: "string \<Rightarrow> string \<Rightarrow> (string \<times> NetworkResource list) list \<Rightarrow> (string \<times> call) list" where
  "task_calls pre aid [] = []"
| "task_calls pre aid ((task, []) # rest) = task_calls pre aid rest"
| "task_calls pre aid ((task, n # ns) # rest) =
     (pre @ ''collision when reserving port for network '' @ IP n @ '' in task '' @ task
        @ '' of alloc '' @ aid, CallAddReserved n) # task_calls pre aid rest"

definition alloc_calls :: "Allocation \<Rightarrow> (string \<times> call) list" where
  "alloc_calls a =
     (if TerminalStatus a then []
      else case AllocResources a of
          Some ar \<Rightarrow>
            if SharedPorts (Shared ar) \<noteq> []
            then [(''collision when reserving port for alloc '' @ ID a,
                   CallAddReservedPorts (SharedPorts (Shared ar)))]
            else map (\<lambda>n. (''collision when reserving port for network '' @ IP n @ '' in alloc ''
                              @ ID a, CallAddReserved n)) (SharedNetworks (Shared ar))
                 @ task_calls [] (ID a)
                     (map (\<lambda>(task, resources). (task, TaskNetworkList resources)) (Tasks ar))
        | None \<Rightarrow>
            task_calls ''(deprecated) '' (ID a)
              (map (\<lambda>(task, resources). (task, ResNetworks resources)) (TaskResources a)))"

fun report ::
  "(string \<times> call) list \<Rightarrow> bool \<times> string \<times> NetworkIndex \<Rightarrow> bool \<times> string \<times> NetworkIndex" where
  "report [] acc = acc"
| "report ((pre, c) # rest) (collide, reason, idx) =
     (case do_call idx c of
        (collided, reasons, idx1) \<Rightarrow>
          report rest
            (if collided then (True, pre @ '': '' @ show_strings reasons, idx1)
             else (collide, reason, idx1)))"

text \<open>
  The ports that a call names, as pairs of an address and a value in the order of the call,
  and those of the calls of a list of allocations. \<open>reuse idx ps\<close>: a port of \<open>ps\<close> is not
  a valid port, is marked in the index \<open>idx\<close> already, or is named twice.
\<close>

fun call_ports :: "call \<Rightarrow> (string \<times> int) list" where
  "call_ports (CallAddReserved n) = map (\<lambda>q. (IP n, Value q)) (ReservedPorts n @ DynamicPorts n)"
| "call_ports (CallAddReservedPorts ports) = map (\<lambda>q. (HostIP q, PortValue q)) ports"

definition alloc_ports :: "Allocation list \<Rightarrow> (string \<times> int) list" where
  "alloc_ports allocs = concat (map (\<lambda>(pre, c). call_ports c) (concat (map alloc_calls allocs)))"

definition reuse :: "NetworkIndex \<Rightarrow> (string \<times> int) list \<Rightarrow> bool" where
  "reuse idx ps =
     ((\<exists>(ip, v) \<in> set ps. \<not> validPort v \<or> Check (portsOn idx ip) (nat v)) \<or> \<not> distinct ps)"



subsection \<open>Example data\<close>

text \<open>Concrete ports, networks and calls, on which the properties below are evaluated.\<close>

definition ex_http :: AllocatedPortMapping where
  "ex_http = \<lparr>PortLabel = ''http'', PortValue = 80, PortTo = 0, HostIP = ''10.0.0.1''\<rparr>"

definition ex_bad :: AllocatedPortMapping where
  "ex_bad = \<lparr>PortLabel = ''bad'', PortValue = 70000, PortTo = 0, HostIP = ''10.0.0.1''\<rparr>"

definition ex_later :: AllocatedPortMapping where
  "ex_later = \<lparr>PortLabel = ''later'', PortValue = 90, PortTo = 0, HostIP = ''10.0.0.1''\<rparr>"

definition ex_port :: "string \<Rightarrow> int \<Rightarrow> int \<Rightarrow> Port" where
  "ex_port l v t = \<lparr>Label = l, Value = v, To = t, HostNetwork = ''default''\<rparr>"

definition ex_net :: "Port list \<Rightarrow> Port list \<Rightarrow> NetworkResource" where
  "ex_net rs ds =
     \<lparr>Mode = ''host'', Device = ''eth0'', CIDR = ''10.0.0.0/30'', IP = ''10.0.0.1'', MBits = 10,
      DNS = None, ReservedPorts = rs, DynamicPorts = ds\<rparr>"

definition ex_calls :: "call list" where
  "ex_calls =
     [CallAddReservedPorts [ex_http],
      CallAddReserved (ex_net [ex_port ''ssh'' 22 0] [ex_port ''dyn'' 20000 0])]"

definition ex_colliding_calls :: "call list" where
  "ex_colliding_calls =
     [CallAddReservedPorts [ex_http],
      CallAddReservedPorts [ex_http, ex_bad, ex_later],
      CallAddReserved (ex_net [ex_port ''http'' 80 0, ex_port ''bad'' (- 1) 0] [])]"

definition ex_alloc :: "string \<Rightarrow> bool \<Rightarrow> AllocatedPorts \<Rightarrow> Allocation" where
  "ex_alloc i t ps =
     \<lparr>ID = i, TerminalStatus = t,
      AllocResources = Some \<lparr>Tasks = [], Shared = \<lparr>SharedNetworks = [], SharedPorts = ps\<rparr>\<rparr>,
      TaskResources = []\<rparr>"

definition ex_allocs :: "Allocation list" where
  "ex_allocs =
     [ex_alloc ''a1'' False [ex_http], ex_alloc ''t'' True [ex_bad], ex_alloc ''a2'' False [ex_http],
      ex_alloc ''a3'' False [ex_http], ex_alloc ''a4'' False [ex_later]]"

text \<open>
  Allocations of the old layout, and one with a network of the task group and a task.
\<close>

definition ex_legacy_alloc :: "string \<Rightarrow> Allocation" where
  "ex_legacy_alloc i =
     \<lparr>ID = i, TerminalStatus = False, AllocResources = None,
      TaskResources = [(''web'', \<lparr>ResNetworks = [ex_net [ex_port ''http'' 80 0] []]\<rparr>)]\<rparr>"

definition ex_group_alloc :: Allocation where
  "ex_group_alloc =
     \<lparr>ID = ''g1'', TerminalStatus = False,
      AllocResources = Some
        \<lparr>Tasks = [(''idle'', \<lparr>TaskNetworkList = []\<rparr>),
                  (''web'', \<lparr>TaskNetworkList = [ex_net [ex_port ''http'' 80 0] []]\<rparr>)],
         Shared = \<lparr>SharedNetworks = [ex_net [ex_port ''http'' 80 0] [ex_port ''dyn'' 20000 0]],
                   SharedPorts = []\<rparr>\<rparr>,
      TaskResources = []\<rparr>"

text \<open>
  A node with two addresses on the host network \<^verbatim>\<open>default\<close>, port 20000 in use on the first
  one, and the dynamic range from 20000 to 20002; an ask with a reserved port and a dynamic
  port whose target is \<open>-1\<close>.
\<close>

definition ex_addr :: "string \<Rightarrow> NodeNetworkAddress" where
  "ex_addr a = \<lparr>Family = ''ipv4'', Alias = ''default'', Address = a, AddrReservedPorts = [], Gateway = []\<rparr>"

definition ex_idx :: NetworkIndex where
  "ex_idx = NewNetworkIndex
     \<lparr>HostNetworks := [''default'' \<mapsto> [ex_addr ''10.0.0.1'', ex_addr ''10.0.0.2'']],
      UsedPorts := [''10.0.0.1'' \<mapsto> {20000}],
      MinDynamicPort := 20000, MaxDynamicPort := 20002\<rparr>"

definition ex_ask :: NetworkResource where
  "ex_ask = ex_net [ex_port ''r'' 20001 0] [ex_port ''x'' 0 (- 1)]"

text \<open>
  A stand-in for package \<^verbatim>\<open>net\<close> that knows the network \<^verbatim>\<open>10.0.0.0/30\<close> and its four
  addresses, and an index with one task network on it.
\<close>

fun join_dots :: "string list \<Rightarrow> string" where
  "join_dots [] = []"
| "join_dots [s] = s"
| "join_dots (s # t # ss) = s @ ''.'' @ join_dots (t # ss)"

definition ex_lib :: "unit NetLib" where
  "ex_lib =
     \<lparr>ParseCIDR = (\<lambda>s. if s = ''10.0.0.0/30'' then Some ([10, 0, 0, 0], ()) else None),
      MaskIP = (\<lambda>ip ipnet. ip),
      Contains = (\<lambda>ipnet ip. take 3 ip = [10, 0, 0] \<and> length ip = 4 \<and> ip ! 3 < 4),
      IPString = (\<lambda>ip. join_dots (map show_nat ip))\<rparr>"

definition ex_task_idx :: NetworkIndex where
  "ex_task_idx = NewNetworkIndex
     \<lparr>TaskNetworks := [ex_net [] []], AvailBandwidth := [''eth0'' \<mapsto> 1000],
      MinDynamicPort := 20000, MaxDynamicPort := 20002\<rparr>"

text \<open>
  A node that reserves port 22 on every address, ports 80 and 443 on \<^verbatim>\<open>10.0.0.2\<close> and the
  ports from 1 to 3 on \<^verbatim>\<open>10.0.0.3\<close>, and a stand-in for \<^verbatim>\<open>ParsePortRanges\<close> that knows
  these three strings.
\<close>

definition ex_parse :: "string \<Rightarrow> string + nat list" where
  "ex_parse s =
     (if s = ''22'' then Inr [22]
      else if s = ''80,443'' then Inr [80, 443]
      else if s = ''1-3'' then Inr [1, 2, 3]
      else Inl ''invalid port range'')"

definition ex_node :: Node where
  "ex_node =
     \<lparr>NodeRes = Some
        \<lparr>Networks = [],
         NodeNetworks =
           [\<lparr>NodeNetMode = ''host'', NodeNetDevice = ''eth0'',
             Addresses = [\<lparr>Family = ''ipv4'', Alias = ''eth0'', Address = ''10.0.0.2'',
                           AddrReservedPorts = ''80,443'', Gateway = []\<rparr>]\<rparr>,
            \<lparr>NodeNetMode = ''host'', NodeNetDevice = ''eth1'',
             Addresses = [\<lparr>Family = ''ipv4'', Alias = ''eth1'', Address = ''10.0.0.3'',
                           AddrReservedPorts = ''1-3'', Gateway = []\<rparr>]\<rparr>],
         NodeMinDynamicPort = 0, NodeMaxDynamicPort = 0\<rparr>,
      LegacyResources = None,
      ReservedResources = Some \<lparr>ReservedNetworks = \<lparr>ReservedHostPorts = ''22''\<rparr>\<rparr>,
      Reserved = None\<rparr>"

section \<open>Properties\<close>

subsection \<open>Reading and writing the used ports\<close>


lemma to_uint_valid: "validPort v \<Longrightarrow> to_uint v = nat v"
  by (simp add: to_uint_def MaxValidPort_def validPort_def)

lemma guard_valid: "(v < 0 \<or> MaxValidPort \<le> v) = (\<not> validPort v)"
  by (auto simp: validPort_def)

lemma portsOn_getUsedPortsFor [simp]: "portsOn (snd (getUsedPortsFor idx ip)) x = portsOn idx x"
  by (simp add: getUsedPortsFor_def portsOn_def NewBitmap_def split: option.splits)

lemma fst_getUsedPortsFor [simp]: "fst (getUsedPortsFor idx ip) = portsOn idx ip"
  by (simp add: getUsedPortsFor_def portsOn_def NewBitmap_def split: option.splits)

lemma getUsedPortsFor_eq: "getUsedPortsFor idx ip = (used, idx1) \<Longrightarrow> used = portsOn idx ip \<and> (\<forall>x. portsOn idx1 x = portsOn idx x)"
  using portsOn_getUsedPortsFor[of idx ip] fst_getUsedPortsFor[of idx ip] by simp

lemma UsedBandwidth_getUsedPortsFor [simp]: "UsedBandwidth (snd (getUsedPortsFor idx ip)) = UsedBandwidth idx"
  by (simp add: getUsedPortsFor_def split: option.splits)

lemma portsOn_setUsed [simp]:
  "portsOn (setUsed idx ip p) x = (if x = ip then insert p (portsOn idx ip) else portsOn idx x)"
  by (simp add: setUsed_def portsOn_def Set_bit_def)

lemma UsedBandwidth_setUsed [simp]: "UsedBandwidth (setUsed idx ip p) = UsedBandwidth idx"
  by (simp add: setUsed_def)

lemma marks_Nil [simp]: "marks [] ip = {}" by (simp add: marks_def)
lemma marks_Cons: "marks (q # ps) ip = (if HostIP q = ip \<and> 0 \<le> PortValue q then {nat (PortValue q)} else {}) \<union> marks ps ip"
  by (auto simp: marks_def)
lemma portMarks_Nil [simp]: "portMarks [] = {}" by (simp add: portMarks_def)
lemma portMarks_Cons: "portMarks (q # ps) = (if 0 \<le> Value q then {nat (Value q)} else {}) \<union> portMarks ps"
  by (auto simp: portMarks_def)


lemma marks_append: "marks (ps @ qs) ip = marks ps ip \<union> marks qs ip"
  by (auto simp: marks_def)
lemma portMarks_append: "portMarks (ps @ qs) = portMarks ps \<union> portMarks qs"
  by (auto simp: portMarks_def)

lemma ARP_loop_Cons_valid:
  assumes "validPort (PortValue q)"
  shows "AddReservedPorts_loop (q # ps) (c0, rs0, idx) =
     (if nat (PortValue q) \<in> portsOn idx (HostIP q)
      then AddReservedPorts_loop ps (True, rs0 @ [''port '' @ show_int (PortValue q) @ '' already in use''],
             snd (getUsedPortsFor idx (HostIP q)))
      else AddReservedPorts_loop ps (c0, rs0,
             setUsed (snd (getUsedPortsFor idx (HostIP q))) (HostIP q) (nat (PortValue q))))"
proof -
  obtain used idx1 where g: "getUsedPortsFor idx (HostIP q) = (used, idx1)" by (cases "getUsedPortsFor idx (HostIP q)")
  note p1 = getUsedPortsFor_eq[OF g]
  have v: "\<not> (PortValue q < 0 \<or> MaxValidPort \<le> PortValue q)" using assms by (auto simp: validPort_def)
  show ?thesis using g v p1 by (simp add: Check_def to_uint_valid[OF assms])
qed

lemma ARP_loop_invalid:
  assumes "\<not> validPort (PortValue bad)"
  shows "AddReservedPorts_loop (bad # rest) (c, rs, idx) =
     (True, [''invalid port '' @ show_int (PortValue bad)], snd (getUsedPortsFor idx (HostIP bad)))"
proof -
  obtain used idx1 where g: "getUsedPortsFor idx (HostIP bad) = (used, idx1)" by (cases "getUsedPortsFor idx (HostIP bad)")
  have v: "PortValue bad < 0 \<or> MaxValidPort \<le> PortValue bad" using assms by (auto simp: validPort_def)
  show ?thesis using g v by simp
qed

declare AddReservedPorts_loop.simps(2) [simp del]

lemma ARP_loop_valid:
  "\<forall>q \<in> set ps. validPort (PortValue q) \<Longrightarrow>
   \<exists>c rs idx'. AddReservedPorts_loop (ps @ rest) (c0, rs0, idx) = AddReservedPorts_loop rest (c, rs, idx')
      \<and> (\<forall>ip. portsOn idx' ip = portsOn idx ip \<union> marks ps ip) \<and> (c0 \<longrightarrow> c)"
proof (induction ps arbitrary: c0 rs0 idx)
  case Nil
  then show ?case by auto
next
  case (Cons q ps)
  then have vq: "validPort (PortValue q)" and rest: "\<forall>q \<in> set ps. validPort (PortValue q)" by auto
  have nn: "0 \<le> PortValue q" using vq by (simp add: validPort_def)
  let ?idx0 = "snd (getUsedPortsFor idx (HostIP q))"
  show ?case
  proof (cases "nat (PortValue q) \<in> portsOn idx (HostIP q)")
    case True
    from Cons.IH[OF rest, of True "rs0 @ [''port '' @ show_int (PortValue q) @ '' already in use'']" ?idx0]
    obtain c rs idx' where h: "AddReservedPorts_loop (ps @ rest) (True, rs0 @ [''port '' @ show_int (PortValue q) @ '' already in use''], ?idx0) = AddReservedPorts_loop rest (c, rs, idx')"
      "\<forall>ip. portsOn idx' ip = portsOn ?idx0 ip \<union> marks ps ip" "True \<longrightarrow> c" by blast
    have "\<forall>ip. portsOn idx' ip = portsOn idx ip \<union> marks (q # ps) ip"
      using h(2) True nn by (auto simp: marks_Cons)
    moreover have "AddReservedPorts_loop ((q # ps) @ rest) (c0, rs0, idx) = AddReservedPorts_loop rest (c, rs, idx')"
      using ARP_loop_Cons_valid[OF vq, of "ps @ rest" c0 rs0 idx] True h(1) by simp
    ultimately show ?thesis using h(3) by blast
  next
    case False
    let ?idx1 = "setUsed ?idx0 (HostIP q) (nat (PortValue q))"
    from Cons.IH[OF rest, of c0 rs0 ?idx1]
    obtain c rs idx' where h: "AddReservedPorts_loop (ps @ rest) (c0, rs0, ?idx1) = AddReservedPorts_loop rest (c, rs, idx')"
      "\<forall>ip. portsOn idx' ip = portsOn ?idx1 ip \<union> marks ps ip" "c0 \<longrightarrow> c" by blast
    have "\<forall>ip. portsOn idx' ip = portsOn idx ip \<union> marks (q # ps) ip"
      using h(2) nn by (auto simp: marks_Cons)
    moreover have "AddReservedPorts_loop ((q # ps) @ rest) (c0, rs0, idx) = AddReservedPorts_loop rest (c, rs, idx')"
      using ARP_loop_Cons_valid[OF vq, of "ps @ rest" c0 rs0 idx] False h(1) by simp
    ultimately show ?thesis using h(3) by blast
  qed
qed

lemma ARP_loop_nocollide:
  "fst (AddReservedPorts_loop ps (c0, rs0, idx)) = False \<Longrightarrow> (\<forall>q \<in> set ps. validPort (PortValue q)) \<and> \<not> c0"
proof (induction ps arbitrary: c0 rs0 idx)
  case Nil
  then show ?case by simp
next
  case (Cons q ps)
  show ?case
  proof (cases "validPort (PortValue q)")
    case True
    from ARP_loop_valid[of "[q]" ps c0 rs0 idx] True obtain c1 rs1 idx1 where
      s: "AddReservedPorts_loop (q # ps) (c0, rs0, idx) = AddReservedPorts_loop ps (c1, rs1, idx1)" "c0 \<longrightarrow> c1" by auto
    with Cons.prems have "fst (AddReservedPorts_loop ps (c1, rs1, idx1)) = False" by simp
    from Cons.IH[OF this] s(2) True show ?thesis by auto
  next
    case False
    with Cons.prems show ?thesis by (simp add: ARP_loop_invalid)
  qed
qed


lemma AR_loop_Cons_valid:
  assumes "validPort (Value q)"
  shows "AddReserved_loop ip (q # ps) (c0, rs0, idx) =
     (if nat (Value q) \<in> portsOn idx ip
      then AddReserved_loop ip ps (True, rs0 @ [''port '' @ show_int (Value q) @ '' already in use''], idx)
      else AddReserved_loop ip ps (c0, rs0, setUsed idx ip (nat (Value q))))"
proof -
  have v: "\<not> (Value q < 0 \<or> MaxValidPort \<le> Value q)" using assms by (auto simp: validPort_def)
  show ?thesis using v by (simp add: Check_def to_uint_valid[OF assms])
qed

lemma AR_loop_invalid:
  assumes "\<not> validPort (Value bad)"
  shows "AddReserved_loop ip (bad # rest) (c, rs, idx) =
           Inl (True, [''invalid port '' @ show_int (Value bad)], idx)"
proof -
  have v: "Value bad < 0 \<or> MaxValidPort \<le> Value bad" using assms by (auto simp: validPort_def)
  show ?thesis using v by simp
qed

declare AddReserved_loop.simps(2) [simp del]

lemma AR_loop_valid:
  "\<forall>q \<in> set ps. validPort (Value q) \<Longrightarrow>
   \<exists>c rs idx'. AddReserved_loop ip (ps @ rest) (c0, rs0, idx) = AddReserved_loop ip rest (c, rs, idx')
      \<and> (\<forall>x. portsOn idx' x = portsOn idx x \<union> (if x = ip then portMarks ps else {}))
      \<and> UsedBandwidth idx' = UsedBandwidth idx \<and> (c0 \<longrightarrow> c)"
proof (induction ps arbitrary: c0 rs0 idx)
  case Nil
  then show ?case by auto
next
  case (Cons q ps)
  then have vq: "validPort (Value q)" and rest: "\<forall>q \<in> set ps. validPort (Value q)" by auto
  have nn: "0 \<le> Value q" using vq by (simp add: validPort_def)
  show ?case
  proof (cases "nat (Value q) \<in> portsOn idx ip")
    case True
    from Cons.IH[OF rest, of True "rs0 @ [''port '' @ show_int (Value q) @ '' already in use'']" idx]
    obtain c rs idx' where h: "AddReserved_loop ip (ps @ rest) (True, rs0 @ [''port '' @ show_int (Value q) @ '' already in use''], idx) = AddReserved_loop ip rest (c, rs, idx')"
      "\<forall>x. portsOn idx' x = portsOn idx x \<union> (if x = ip then portMarks ps else {})"
      "UsedBandwidth idx' = UsedBandwidth idx" "True \<longrightarrow> c" by blast
    have "\<forall>x. portsOn idx' x = portsOn idx x \<union> (if x = ip then portMarks (q # ps) else {})"
      using h(2) True nn by (auto simp: portMarks_Cons)
    moreover have "AddReserved_loop ip ((q # ps) @ rest) (c0, rs0, idx) = AddReserved_loop ip rest (c, rs, idx')"
      using AR_loop_Cons_valid[OF vq, of ip "ps @ rest" c0 rs0 idx] True h(1) by simp
    ultimately show ?thesis using h(3,4) by blast
  next
    case False
    let ?idx1 = "setUsed idx ip (nat (Value q))"
    from Cons.IH[OF rest, of c0 rs0 ?idx1]
    obtain c rs idx' where h: "AddReserved_loop ip (ps @ rest) (c0, rs0, ?idx1) = AddReserved_loop ip rest (c, rs, idx')"
      "\<forall>x. portsOn idx' x = portsOn ?idx1 x \<union> (if x = ip then portMarks ps else {})"
      "UsedBandwidth idx' = UsedBandwidth ?idx1" "c0 \<longrightarrow> c" by blast
    have "\<forall>x. portsOn idx' x = portsOn idx x \<union> (if x = ip then portMarks (q # ps) else {})"
      using h(2) nn by (auto simp: portMarks_Cons)
    moreover have "AddReserved_loop ip ((q # ps) @ rest) (c0, rs0, idx) = AddReserved_loop ip rest (c, rs, idx')"
      using AR_loop_Cons_valid[OF vq, of ip "ps @ rest" c0 rs0 idx] False h(1) by simp
    moreover have "UsedBandwidth idx' = UsedBandwidth idx" using h(3) by simp
    ultimately show ?thesis using h(4) by blast
  qed
qed

text \<open>A list of ports is valid throughout, or it has a first invalid port.\<close>

lemma first_invalid:
  "(\<forall>q \<in> set ps. P q) \<or> (\<exists>as bad rest. ps = as @ bad # rest \<and> (\<forall>q \<in> set as. P q) \<and> \<not> P bad)"
proof (cases "\<forall>q \<in> set ps. P q")
  case True
  then show ?thesis by simp
next
  case False
  then have "\<exists>x \<in> set ps. \<not> P x" by simp
  from split_list_first_prop[OF this] show ?thesis by blast
qed


lemma AR_loop_cases:
  "(\<exists>c rs idx'. AddReserved_loop ip ps (c0, rs0, idx) = Inr (c, rs, idx') \<and> (\<forall>q \<in> set ps. validPort (Value q))
        \<and> (\<forall>x. portsOn idx' x = portsOn idx x \<union> (if x = ip then portMarks ps else {}))
        \<and> UsedBandwidth idx' = UsedBandwidth idx \<and> (c0 \<longrightarrow> c))
   \<or> (\<exists>as bad rest idx'. ps = as @ bad # rest \<and> (\<forall>q \<in> set as. validPort (Value q)) \<and> \<not> validPort (Value bad)
        \<and> AddReserved_loop ip ps (c0, rs0, idx) = Inl (True, [''invalid port '' @ show_int (Value bad)], idx')
        \<and> (\<forall>x. portsOn idx' x = portsOn idx x \<union> (if x = ip then portMarks as else {}))
        \<and> UsedBandwidth idx' = UsedBandwidth idx)"
proof -
  from first_invalid[of ps "\<lambda>q. validPort (Value q)"]
  consider (ok) "\<forall>q \<in> set ps. validPort (Value q)"
    | (bad) as bad rest where "ps = as @ bad # rest" "\<forall>q \<in> set as. validPort (Value q)" "\<not> validPort (Value bad)"
    by blast
  then show ?thesis
  proof cases
    case ok
    from AR_loop_valid[OF ok, of ip "[]" c0 rs0 idx] ok show ?thesis by auto
  next
    case bad
    from AR_loop_valid[OF bad(2), of ip "bad # rest" c0 rs0 idx]
    obtain c rs idx' where h: "AddReserved_loop ip (as @ bad # rest) (c0, rs0, idx) = AddReserved_loop ip (bad # rest) (c, rs, idx')"
      "\<forall>x. portsOn idx' x = portsOn idx x \<union> (if x = ip then portMarks as else {})"
      "UsedBandwidth idx' = UsedBandwidth idx" by blast
    have "AddReserved_loop ip ps (c0, rs0, idx) = Inl (True, [''invalid port '' @ show_int (Value bad)], idx')"
      using h(1) bad(1) AR_loop_invalid[OF bad(3)] by simp
    then show ?thesis using bad h(2,3) by blast
  qed
qed

lemma ARP_loop_cases:
  "(\<exists>c rs idx'. AddReservedPorts_loop ps (c0, rs0, idx) = (c, rs, idx') \<and> (\<forall>q \<in> set ps. validPort (PortValue q))
        \<and> (\<forall>x. portsOn idx' x = portsOn idx x \<union> marks ps x) \<and> (c0 \<longrightarrow> c))
   \<or> (\<exists>as bad rest idx'. ps = as @ bad # rest \<and> (\<forall>q \<in> set as. validPort (PortValue q)) \<and> \<not> validPort (PortValue bad)
        \<and> AddReservedPorts_loop ps (c0, rs0, idx) = (True, [''invalid port '' @ show_int (PortValue bad)], idx')
        \<and> (\<forall>x. portsOn idx' x = portsOn idx x \<union> marks as x))"
proof -
  from first_invalid[of ps "\<lambda>q. validPort (PortValue q)"]
  consider (ok) "\<forall>q \<in> set ps. validPort (PortValue q)"
    | (bad) as bad rest where "ps = as @ bad # rest" "\<forall>q \<in> set as. validPort (PortValue q)" "\<not> validPort (PortValue bad)"
    by blast
  then show ?thesis
  proof cases
    case ok
    from ARP_loop_valid[OF ok, of "[]" c0 rs0 idx] ok show ?thesis by auto
  next
    case bad
    from ARP_loop_valid[OF bad(2), of "bad # rest" c0 rs0 idx]
    obtain c rs idx' where h: "AddReservedPorts_loop (as @ bad # rest) (c0, rs0, idx) = AddReservedPorts_loop (bad # rest) (c, rs, idx')"
      "\<forall>x. portsOn idx' x = portsOn idx x \<union> marks as x" by blast
    have "AddReservedPorts_loop ps (c0, rs0, idx) = (True, [''invalid port '' @ show_int (PortValue bad)], snd (getUsedPortsFor idx' (HostIP bad)))"
      using h(1) bad(1) ARP_loop_invalid[OF bad(3)] by simp
    moreover have "\<forall>x. portsOn (snd (getUsedPortsFor idx' (HostIP bad))) x = portsOn idx x \<union> marks as x"
      using h(2) by simp
    ultimately show ?thesis using bad by blast
  qed
qed


lemma AddReserved_unfold:
  "AddReserved idx n =
     (case AddReserved_loop (IP n) (ReservedPorts n @ DynamicPorts n) (False, [], snd (getUsedPortsFor idx (IP n))) of
        Inl r \<Rightarrow> r
      | Inr (collide, reasons, idx2) \<Rightarrow>
          (collide, reasons,
           idx2\<lparr>UsedBandwidth := (UsedBandwidth idx2)
                  (Device n \<mapsto> wrap64 (bandwidth (UsedBandwidth idx2) (Device n) + MBits n))\<rparr>))"
  by (cases "getUsedPortsFor idx (IP n)") (simp add: AddReserved_def)

lemma portsOn_UsedBandwidth_update [simp]: "portsOn (idx\<lparr>UsedBandwidth := b\<rparr>) x = portsOn idx x"
  by (simp add: portsOn_def)

lemma AddReserved_cases:
  "(\<exists>c rs idx'. AddReserved idx n = (c, rs, idx') \<and> (\<forall>q \<in> set (ReservedPorts n @ DynamicPorts n). validPort (Value q))
        \<and> (\<forall>x. portsOn idx' x = portsOn idx x \<union> (if x = IP n then portMarks (ReservedPorts n @ DynamicPorts n) else {})))
   \<or> (\<exists>as bad rest idx'. ReservedPorts n @ DynamicPorts n = as @ bad # rest
        \<and> (\<forall>q \<in> set as. validPort (Value q)) \<and> \<not> validPort (Value bad)
        \<and> AddReserved idx n = (True, [''invalid port '' @ show_int (Value bad)], idx')
        \<and> (\<forall>x. portsOn idx' x = portsOn idx x \<union> (if x = IP n then portMarks as else {}))
        \<and> UsedBandwidth idx' = UsedBandwidth idx)"
proof -
  let ?i = "snd (getUsedPortsFor idx (IP n))"
  from AR_loop_cases[of "IP n" "ReservedPorts n @ DynamicPorts n" False "[]" ?i]
  consider (ok) c rs idx' where
      "AddReserved_loop (IP n) (ReservedPorts n @ DynamicPorts n) (False, [], ?i) = Inr (c, rs, idx')"
      "\<forall>q \<in> set (ReservedPorts n @ DynamicPorts n). validPort (Value q)"
      "\<forall>x. portsOn idx' x = portsOn ?i x \<union> (if x = IP n then portMarks (ReservedPorts n @ DynamicPorts n) else {})"
    | (bad) as bad rest idx' where "ReservedPorts n @ DynamicPorts n = as @ bad # rest"
      "\<forall>q \<in> set as. validPort (Value q)" "\<not> validPort (Value bad)"
      "AddReserved_loop (IP n) (ReservedPorts n @ DynamicPorts n) (False, [], ?i) = Inl (True, [''invalid port '' @ show_int (Value bad)], idx')"
      "\<forall>x. portsOn idx' x = portsOn ?i x \<union> (if x = IP n then portMarks as else {})"
      "UsedBandwidth idx' = UsedBandwidth ?i"
    by blast
  then show ?thesis
  proof cases
    case ok
    let ?r = "idx'\<lparr>UsedBandwidth := (UsedBandwidth idx')
                  (Device n \<mapsto> wrap64 (bandwidth (UsedBandwidth idx') (Device n) + MBits n))\<rparr>"
    have "AddReserved idx n = (c, rs, ?r)" using ok(1) by (simp add: AddReserved_unfold)
    moreover have "\<forall>x. portsOn ?r x = portsOn idx x \<union> (if x = IP n then portMarks (ReservedPorts n @ DynamicPorts n) else {})"
      using ok(3) by simp
    ultimately show ?thesis using ok(2) by blast
  next
    case bad
    have "AddReserved idx n = (True, [''invalid port '' @ show_int (Value bad)], idx')"
      using bad(4) by (simp add: AddReserved_unfold)
    moreover have "\<forall>x. portsOn idx' x = portsOn idx x \<union> (if x = IP n then portMarks as else {})"
      using bad(5) by simp
    moreover have "UsedBandwidth idx' = UsedBandwidth idx" using bad(6) by simp
    ultimately show ?thesis using bad(1,2,3) by blast
  qed
qed

lemma AddReserved_invalid:
  assumes "ReservedPorts n @ DynamicPorts n = ns @ nbad # nrest" "\<forall>q\<in>set ns. validPort (Value q)"
    "\<not> validPort (Value nbad)"
  shows "\<exists>idx'. AddReserved idx n = (True, [''invalid port '' @ show_int (Value nbad)], idx')
            \<and> (\<forall>ip. portsOn idx' ip = portsOn idx ip \<union> (if ip = IP n then portMarks ns else {}))
            \<and> UsedBandwidth idx' = UsedBandwidth idx"
proof -
  from AR_loop_valid[OF assms(2), of "IP n" "nbad # nrest" False "[]" "snd (getUsedPortsFor idx (IP n))"]
  obtain c rs idx' where h: "AddReserved_loop (IP n) (ns @ nbad # nrest) (False, [], snd (getUsedPortsFor idx (IP n)))
       = AddReserved_loop (IP n) (nbad # nrest) (c, rs, idx')"
      "\<forall>x. portsOn idx' x = portsOn idx x \<union> (if x = IP n then portMarks ns else {})"
      "UsedBandwidth idx' = UsedBandwidth idx" by auto
  have "AddReserved idx n = (True, [''invalid port '' @ show_int (Value nbad)], idx')"
    using h(1) assms(1) AR_loop_invalid[OF assms(3)] by (simp add: AddReserved_unfold)
  then show ?thesis using h(2,3) by blast
qed

lemma ARP_loop_rest_ignored:
  "\<forall>q\<in>set ps. validPort (PortValue q) \<Longrightarrow> \<not> validPort (PortValue bad) \<Longrightarrow>
   AddReservedPorts_loop (ps @ bad # rest) (c, rs, idx) = AddReservedPorts_loop (ps @ [bad]) (c, rs, idx)"
proof (induction ps arbitrary: c rs idx)
  case Nil
  then show ?case by (simp add: ARP_loop_invalid)
next
  case (Cons q ps)
  then have vq: "validPort (PortValue q)" by simp
  show ?case using Cons by (simp add: ARP_loop_Cons_valid[OF vq])
qed

lemma AR_loop_rest_ignored:
  "\<forall>q\<in>set ps. validPort (Value q) \<Longrightarrow> \<not> validPort (Value bad) \<Longrightarrow>
   AddReserved_loop ip (ps @ bad # rest) (c, rs, idx) = AddReserved_loop ip (ps @ [bad]) (c, rs, idx)"
proof (induction ps arbitrary: c rs idx)
  case Nil
  then show ?case by (simp add: AR_loop_invalid)
next
  case (Cons q ps)
  then have vq: "validPort (Value q)" by simp
  show ?case using Cons by (simp add: AR_loop_Cons_valid[OF vq])
qed

lemma AddReservedPorts_invalid:
  assumes "\<forall>q\<in>set ps. validPort (PortValue q)" "\<not> validPort (PortValue bad)"
  shows "AddReservedPorts idx (ps @ bad # rest) = AddReservedPorts idx (ps @ [bad])"
    and "\<exists>idx'. AddReservedPorts idx (ps @ bad # rest) = (True, [''invalid port '' @ show_int (PortValue bad)], idx')
            \<and> (\<forall>ip. portsOn idx' ip = portsOn idx ip \<union> marks ps ip)"
proof -
  from ARP_loop_valid[OF assms(1), of "bad # rest" False "[]" idx]
  obtain c rs idx' where h: "AddReservedPorts_loop (ps @ bad # rest) (False, [], idx) = AddReservedPorts_loop (bad # rest) (c, rs, idx')"
      "\<forall>x. portsOn idx' x = portsOn idx x \<union> marks ps x" by blast
  have e: "AddReservedPorts idx (ps @ bad # rest) = (True, [''invalid port '' @ show_int (PortValue bad)], snd (getUsedPortsFor idx' (HostIP bad)))"
    using h(1) ARP_loop_invalid[OF assms(2)] by (simp add: AddReservedPorts_def)
  moreover have "\<forall>x. portsOn (snd (getUsedPortsFor idx' (HostIP bad))) x = portsOn idx x \<union> marks ps x"
    using h(2) by simp
  ultimately show "\<exists>idx'. AddReservedPorts idx (ps @ bad # rest) = (True, [''invalid port '' @ show_int (PortValue bad)], idx')
            \<and> (\<forall>ip. portsOn idx' ip = portsOn idx ip \<union> marks ps ip)" by blast
  show "AddReservedPorts idx (ps @ bad # rest) = AddReservedPorts idx (ps @ [bad])"
    using ARP_loop_rest_ignored[OF assms] by (simp add: AddReservedPorts_def)
qed


lemma AddReserved_rest_ignored:
  assumes "ReservedPorts n @ DynamicPorts n = ns @ nbad # nrest" "\<forall>q\<in>set ns. validPort (Value q)"
    "\<not> validPort (Value nbad)"
  shows "AddReserved idx n = AddReserved idx (n\<lparr>ReservedPorts := ns @ [nbad], DynamicPorts := []\<rparr>)"
  using AR_loop_rest_ignored[OF assms(2,3), of "IP n" nrest False "[]" "snd (getUsedPortsFor idx (IP n))"] assms(1)
  by (simp add: AddReserved_unfold split: sum.split prod.split)

lemma do_call_ports:
  assumes "\<not> fst (do_call idx c)"
  shows "portsOn (snd (snd (do_call idx c))) x = portsOn idx x \<union> reserved_by c x"
proof (cases c)
  case (CallAddReserved n)
  from AddReserved_cases[of idx n] assms CallAddReserved show ?thesis by auto
next
  case (CallAddReservedPorts ps)
  from ARP_loop_cases[of ps False "[]" idx] assms CallAddReservedPorts show ?thesis
    by (auto simp: AddReservedPorts_def)
qed

lemma do_call_mono: "portsOn idx x \<subseteq> portsOn (snd (snd (do_call idx c))) x"
proof (cases c)
  case (CallAddReserved n)
  from AddReserved_cases[of idx n] CallAddReserved show ?thesis by auto
next
  case (CallAddReservedPorts ps)
  from ARP_loop_cases[of ps False "[]" idx] CallAddReservedPorts show ?thesis
    by (auto simp: AddReservedPorts_def)
qed

lemma run_calls_Cons:
  "run_calls (c # cs) idx =
     (fst (do_call idx c) \<or> fst (run_calls cs (snd (snd (do_call idx c)))),
      snd (run_calls cs (snd (snd (do_call idx c)))))"
  by (simp split: prod.splits)

declare run_calls.simps(2) [simp del]

lemma run_calls_ports:
  "\<not> fst (run_calls cs idx) \<Longrightarrow>
   portsOn (snd (run_calls cs idx)) x = portsOn idx x \<union> (\<Union>c \<in> set cs. reserved_by c x)"
proof (induction cs arbitrary: idx)
  case Nil
  then show ?case by simp
next
  case (Cons c cs)
  then have a: "\<not> fst (do_call idx c)" and b: "\<not> fst (run_calls cs (snd (snd (do_call idx c))))"
    by (simp_all add: run_calls_Cons)
  show ?case using Cons.IH[OF b] do_call_ports[OF a, of x] by (auto simp: run_calls_Cons)
qed

lemma run_calls_mono: "portsOn idx x \<subseteq> portsOn (snd (run_calls cs idx)) x"
proof (induction cs arbitrary: idx)
  case Nil
  then show ?case by simp
next
  case (Cons c cs)
  show ?case using Cons.IH[of "snd (snd (do_call idx c))"] do_call_mono[of idx x c]
    by (auto simp: run_calls_Cons)
qed

lemma run_calls_append:
  "snd (run_calls (cs1 @ cs2) idx) = snd (run_calls cs2 (snd (run_calls cs1 idx)))"
  by (induction cs1 arbitrary: idx) (simp_all add: run_calls_Cons)

subsection \<open>Evaluation on concrete data\<close>

lemmas ex_defs = ex_http_def ex_bad_def ex_later_def ex_port_def ex_net_def ex_calls_def
  ex_alloc_def ex_allocs_def ex_addr_def ex_idx_def ex_ask_def ex_lib_def ex_task_idx_def
  ex_parse_def ex_node_def ex_colliding_calls_def
  ex_legacy_alloc_def ex_group_alloc_def

lemmas eval_defs = run_calls.simps AddReserved_def AddReservedPorts_def AddReservedPorts_loop.simps
  AddReserved_loop.simps getUsedPortsFor_def setUsed_def portsOn_def Check_def Set_bit_def NewBitmap_def
  NewNetworkIndex_def to_uint_def wrap64_def MaxValidPort_def bandwidth_def Let_def

lemmas alloc_eval_defs = AddAllocs_def AddAllocs_loop.simps AddAllocs_alloc_def AddAllocs_tasks.simps
  AddAllocs_networks.simps show_strings_def join_blank.simps show_int_def show_nat.simps digit_char_def
  index_after_def

lemma NewNetworkIndex_no_ports: "\<forall>ip. portsOn NewNetworkIndex ip = {}"
  by (simp add: portsOn_def NewNetworkIndex_def)

subsection \<open>Reservations accumulate\<close>

text \<open>
  C6: for a sequence of calls of \<^verbatim>\<open>AddReserved\<close> and \<^verbatim>\<open>AddReservedPorts\<close> that starts from
  an index without used ports and in which no call reports a collision, a port is marked
  for an address afterwards iff some call of the sequence reserved it for that address (a
  call that meets a port value out of range reports a collision, so the hypothesis that
  every value is in range is part of the one stated). And the calls clear no port, whatever
  the index they start from and whatever they report: what is marked before a call of
  \<^verbatim>\<open>AddReserved\<close> or \<^verbatim>\<open>AddReservedPorts\<close> is marked after it, and what is marked after a
  part of a sequence is marked after the whole of it.
\<close>

theorem reservations_are_the_union:
  "((\<forall>ip. portsOn idx ip = {}) \<and> \<not> fst (run_calls cs idx) \<longrightarrow>
      (\<forall>ip p. Check (portsOn (snd (run_calls cs idx)) ip) p \<longleftrightarrow> (\<exists>c \<in> set cs. p \<in> reserved_by c ip)))
   \<and> (\<forall>cs1 cs2 ip. cs = cs1 @ cs2 \<longrightarrow>
          portsOn (snd (run_calls cs1 idx)) ip \<subseteq> portsOn (snd (run_calls cs idx)) ip)
   \<and> (\<forall>ip. portsOn idx ip \<subseteq> portsOn (snd (run_calls cs idx)) ip)
   \<and> (\<forall>ip. portsOn idx ip \<subseteq> portsOn (snd (snd (AddReserved idx n))) ip)
   \<and> (\<forall>ip. portsOn idx ip \<subseteq> portsOn (snd (snd (AddReservedPorts idx ports))) ip)"
proof (intro conjI allI impI)
  fix ip p
  assume a: "(\<forall>ip. portsOn idx ip = {}) \<and> \<not> fst (run_calls cs idx)"
  then have n: "\<not> fst (run_calls cs idx)" and e: "\<forall>ip. portsOn idx ip = {}" by simp_all
  show "Check (portsOn (snd (run_calls cs idx)) ip) p \<longleftrightarrow> (\<exists>c \<in> set cs. p \<in> reserved_by c ip)"
    using run_calls_ports[OF n, of ip] e by (auto simp: Check_def)
next
  fix cs1 cs2 ip
  assume "cs = cs1 @ cs2"
  then show "portsOn (snd (run_calls cs1 idx)) ip \<subseteq> portsOn (snd (run_calls cs idx)) ip"
    using run_calls_mono[of "snd (run_calls cs1 idx)" ip cs2] by (simp add: run_calls_append)
next
  fix ip
  show "portsOn idx ip \<subseteq> portsOn (snd (run_calls cs idx)) ip" by (rule run_calls_mono)
  show "portsOn idx ip \<subseteq> portsOn (snd (snd (AddReserved idx n))) ip"
    using do_call_mono[of idx ip "CallAddReserved n"] by simp
  show "portsOn idx ip \<subseteq> portsOn (snd (snd (AddReservedPorts idx ports))) ip"
    using do_call_mono[of idx ip "CallAddReservedPorts ports"] by simp
qed

theorem reservations_are_the_union_witness:
  "Check (portsOn (snd (run_calls ex_calls NewNetworkIndex)) ''10.0.0.1'') 22
   \<and> \<not> Check (portsOn (snd (run_calls ex_calls NewNetworkIndex)) ''10.0.0.1'') 23
   \<and> fst (run_calls ex_colliding_calls NewNetworkIndex)
   \<and> Check (portsOn (snd (run_calls ex_colliding_calls NewNetworkIndex)) ''10.0.0.1'') 80"
proof -
  have h2: "\<not> fst (run_calls ex_calls NewNetworkIndex)" by (simp add: ex_defs eval_defs)
  have a: "\<exists>c \<in> set ex_calls. 22 \<in> reserved_by c ''10.0.0.1''"
    by (simp add: ex_calls_def ex_net_def ex_port_def portMarks_def)
  have b: "\<not> (\<exists>c \<in> set ex_calls. 23 \<in> reserved_by c ''10.0.0.1'')"
    by (simp add: ex_calls_def ex_net_def ex_port_def ex_http_def portMarks_def marks_def)
  note t = reservations_are_the_union[of NewNetworkIndex ex_calls]
  from t NewNetworkIndex_no_ports h2 a b
  have one: "Check (portsOn (snd (run_calls ex_calls NewNetworkIndex)) ''10.0.0.1'') 22
   \<and> \<not> Check (portsOn (snd (run_calls ex_calls NewNetworkIndex)) ''10.0.0.1'') 23" by blast
  have c: "fst (run_calls ex_colliding_calls NewNetworkIndex)"
    by (simp add: ex_defs eval_defs validPort_def)
  have s: "ex_colliding_calls = [CallAddReservedPorts [ex_http]]
      @ [CallAddReservedPorts [ex_http, ex_bad, ex_later],
         CallAddReserved (ex_net [ex_port ''http'' 80 0, ex_port ''bad'' (- 1) 0] [])]"
    by (simp add: ex_colliding_calls_def)
  have f: "80 \<in> portsOn (snd (run_calls [CallAddReservedPorts [ex_http]] NewNetworkIndex)) ''10.0.0.1''"
    by (simp add: ex_defs eval_defs)
  from reservations_are_the_union[of NewNetworkIndex ex_colliding_calls] s
  have "portsOn (snd (run_calls [CallAddReservedPorts [ex_http]] NewNetworkIndex)) ''10.0.0.1''
          \<subseteq> portsOn (snd (run_calls ex_colliding_calls NewNetworkIndex)) ''10.0.0.1''" by blast
  with f have two: "Check (portsOn (snd (run_calls ex_colliding_calls NewNetworkIndex)) ''10.0.0.1'') 80"
    by (auto simp: Check_def)
  show ?thesis using one c two by simp
qed

subsection \<open>An invalid port ends the call\<close>

text \<open>
  C10: when \<^verbatim>\<open>AddReservedPorts\<close> or \<^verbatim>\<open>AddReserved\<close> meets a port value outside
  \<open>[0, MaxValidPort)\<close>, after ports that are all valid, it returns \<open>collide = true\<close> with
  the single reason \<^verbatim>\<open>invalid port <value>\<close>. The ports before the invalid one stay marked
  (the marked ports are those of the index before the call and those of the earlier ports:
  nothing is rolled back), and the ports after it are not looked at: the result is the one
  for the list cut after the invalid port. \<^verbatim>\<open>AddReserved\<close> leaves the bandwidth as it was.
\<close>

theorem invalid_port_returns_at_once:
  assumes "\<forall>q\<in>set ps. validPort (PortValue q)" and "\<not> validPort (PortValue bad)"
    and "ReservedPorts n @ DynamicPorts n = ns @ nbad # nrest"
    and "\<forall>q\<in>set ns. validPort (Value q)" and "\<not> validPort (Value nbad)"
  shows "(\<exists>idx'. AddReservedPorts idx (ps @ bad # rest)
                   = (True, [''invalid port '' @ show_int (PortValue bad)], idx')
              \<and> (\<forall>ip. portsOn idx' ip = portsOn idx ip \<union> marks ps ip))
       \<and> AddReservedPorts idx (ps @ bad # rest) = AddReservedPorts idx (ps @ [bad])
       \<and> (\<exists>idx'. AddReserved idx n = (True, [''invalid port '' @ show_int (Value nbad)], idx')
              \<and> (\<forall>ip. portsOn idx' ip = portsOn idx ip \<union> (if ip = IP n then portMarks ns else {}))
              \<and> UsedBandwidth idx' = UsedBandwidth idx)
       \<and> AddReserved idx n = AddReserved idx (n\<lparr>ReservedPorts := ns @ [nbad], DynamicPorts := []\<rparr>)"
  using AddReservedPorts_invalid[OF assms(1,2), of idx rest] AddReserved_invalid[OF assms(3,4,5), of idx]
    AddReserved_rest_ignored[OF assms(3,4,5), of idx]
  by blast

theorem invalid_port_returns_at_once_witness:
  "fst (AddReservedPorts NewNetworkIndex [ex_http, ex_bad, ex_later])
   \<and> fst (snd (AddReservedPorts NewNetworkIndex [ex_http, ex_bad, ex_later])) = [''invalid port 70000'']
   \<and> portsOn (snd (snd (AddReservedPorts NewNetworkIndex [ex_http, ex_bad, ex_later]))) ''10.0.0.1'' = {80}
   \<and> fst (AddReserved NewNetworkIndex (ex_net [ex_port ''http'' 80 0, ex_port ''bad'' (- 1) 0] [ex_port ''later'' 90 0]))
   \<and> fst (snd (AddReserved NewNetworkIndex (ex_net [ex_port ''http'' 80 0, ex_port ''bad'' (- 1) 0] [ex_port ''later'' 90 0])))
        = [''invalid port -1'']
   \<and> portsOn (snd (snd (AddReserved NewNetworkIndex
         (ex_net [ex_port ''http'' 80 0, ex_port ''bad'' (- 1) 0] [ex_port ''later'' 90 0])))) ''10.0.0.1'' = {80}"
proof -
  let ?n = "ex_net [ex_port ''http'' 80 0, ex_port ''bad'' (- 1) 0] [ex_port ''later'' 90 0]"
  have h1: "\<forall>q\<in>set [ex_http]. validPort (PortValue q)"
    by (simp add: ex_defs validPort_def MaxValidPort_def)
  have h2: "\<not> validPort (PortValue ex_bad)"
    by (simp add: ex_defs validPort_def MaxValidPort_def)
  have h3: "ReservedPorts ?n @ DynamicPorts ?n = [ex_port ''http'' 80 0] @ ex_port ''bad'' (- 1) 0 # [ex_port ''later'' 90 0]"
    by (simp add: ex_defs)
  have h4: "\<forall>q\<in>set [ex_port ''http'' 80 0]. validPort (Value q)"
    by (simp add: ex_defs validPort_def MaxValidPort_def)
  have h5: "\<not> validPort (Value (ex_port ''bad'' (- 1) 0))"
    by (simp add: ex_defs validPort_def MaxValidPort_def)
  have s1: "show_int (PortValue ex_bad) = ''70000''"
    by (simp add: ex_defs show_int_def show_nat.simps digit_char_def)
  have s2: "show_int (Value (ex_port ''bad'' (- 1) 0)) = ''-1''"
    by (simp add: ex_defs show_int_def show_nat.simps digit_char_def)
  have m1: "marks [ex_http] ''10.0.0.1'' = {80}"
    by (auto simp: marks_def ex_defs)
  have m2: "portMarks [ex_port ''http'' 80 0] = {80}"
    by (auto simp: portMarks_def ex_defs)
  note e = NewNetworkIndex_no_ports
  have ip: "IP ?n = ''10.0.0.1''" by (simp add: ex_defs)
  note c = invalid_port_returns_at_once[OF h1 h2 h3 h4 h5, of NewNetworkIndex "[ex_later]",
      unfolded s1 s2 m1 m2 ip]
  from c[THEN conjunct1] obtain i1 where
    a: "AddReservedPorts NewNetworkIndex ([ex_http] @ ex_bad # [ex_later]) = (True, [''invalid port 70000''], i1)"
       "\<forall>ip. portsOn i1 ip = portsOn NewNetworkIndex ip \<union> marks [ex_http] ip"
    by auto
  from c[THEN conjunct2, THEN conjunct2, THEN conjunct1] obtain i2 where
    b: "AddReserved NewNetworkIndex ?n = (True, [''invalid port -1''], i2)"
       "\<forall>ip. portsOn i2 ip = portsOn NewNetworkIndex ip \<union> (if ip = ''10.0.0.1'' then {80} else {})"
    by auto
  have "portsOn i1 ''10.0.0.1'' = {80}" using a(2) e m1 by simp
  moreover have "portsOn i2 ''10.0.0.1'' = {80}" using b(2) e by simp
  ultimately show ?thesis using a(1) b(1) by simp
qed

subsection \<open>AddAllocs: the later report wins\<close>


lemma later_wins_assoc:
  "later_wins (c, r) (later_wins (c', r') x) = later_wins (c \<or> c', if c' then r' else r) x"
  by (cases x) auto

lemma later_wins_False [simp]: "later_wins (False, r) (c, r', i) = (c, if c then r' else r, i)"
  by simp

lemma AddAllocs_networks_acc:
  "AddAllocs_networks aid ns (c, r, idx) = later_wins (c, r) (AddAllocs_networks aid ns (False, [], idx))"
proof (induction ns arbitrary: c r idx)
  case Nil
  then show ?case by simp
next
  case (Cons n ns)
  obtain cc rr idx1 where a: "AddReserved idx n = (cc, rr, idx1)" by (cases "AddReserved idx n")
  show ?case
  proof (cases cc)
    case True
    let ?m = "''collision when reserving port for network '' @ IP n @ '' in alloc '' @ aid @ '': '' @ show_strings rr"
    have "AddAllocs_networks aid (n # ns) (c, r, idx) = later_wins (True, ?m) (AddAllocs_networks aid ns (False, [], idx1))"
      using a True Cons.IH[of True ?m idx1] by simp
    moreover have "AddAllocs_networks aid (n # ns) (False, [], idx) = later_wins (True, ?m) (AddAllocs_networks aid ns (False, [], idx1))"
      using a True Cons.IH[of True ?m idx1] by simp
    ultimately show ?thesis by (simp add: later_wins_assoc)
  next
    case False
    have "AddAllocs_networks aid (n # ns) (c, r, idx) = later_wins (c, r) (AddAllocs_networks aid ns (False, [], idx1))"
      using a False Cons.IH[of c r idx1] by simp
    moreover have "AddAllocs_networks aid (n # ns) (False, [], idx) = AddAllocs_networks aid ns (False, [], idx1)"
      using a False by simp
    ultimately show ?thesis by simp
  qed
qed

lemma AddAllocs_tasks_acc:
  "AddAllocs_tasks pre aid ts (c, r, idx) = later_wins (c, r) (AddAllocs_tasks pre aid ts (False, [], idx))"
proof (induction ts arbitrary: c r idx)
  case Nil
  then show ?case by simp
next
  case (Cons t ts)
  obtain task networks where t: "t = (task, networks)" by (cases t)
  show ?case
  proof (cases networks)
    case Nil
    then show ?thesis using t Cons.IH[of c r idx] by simp
  next
    case (Cons n rest)
    obtain cc rr idx1 where a: "AddReserved idx n = (cc, rr, idx1)" by (cases "AddReserved idx n")
    show ?thesis
    proof (cases cc)
      case True
      let ?m = "pre @ ''collision when reserving port for network '' @ IP n @ '' in task ''
                         @ task @ '' of alloc '' @ aid @ '': '' @ show_strings rr"
      have "AddAllocs_tasks pre aid (t # ts) (c, r, idx) = later_wins (True, ?m) (AddAllocs_tasks pre aid ts (False, [], idx1))"
        using a True t Cons Cons.IH[of True ?m idx1] by simp
      moreover have "AddAllocs_tasks pre aid (t # ts) (False, [], idx) = later_wins (True, ?m) (AddAllocs_tasks pre aid ts (False, [], idx1))"
        using a True t Cons Cons.IH[of True ?m idx1] by simp
      ultimately show ?thesis by (simp add: later_wins_assoc)
    next
      case False
      have "AddAllocs_tasks pre aid (t # ts) (c, r, idx) = later_wins (c, r) (AddAllocs_tasks pre aid ts (False, [], idx1))"
        using a False t Cons Cons.IH[of c r idx1] by simp
      moreover have "AddAllocs_tasks pre aid (t # ts) (False, [], idx) = AddAllocs_tasks pre aid ts (False, [], idx1)"
        using a False t Cons by simp
      ultimately show ?thesis by simp
    qed
  qed
qed


lemma later_wins_later_wins:
  "later_wins (c, r) (later_wins (False, []) x) = later_wins (c, r) x"
  by (cases x) auto

lemma later_wins_idem: "later_wins (False, []) (later_wins (False, []) x) = later_wins (False, []) x"
  by (cases x) auto

lemma AddAllocs_alloc_acc:
  "AddAllocs_alloc a (c, r, idx) = later_wins (c, r) (AddAllocs_alloc a (False, [], idx))"
proof (cases "TerminalStatus a")
  case True
  then show ?thesis by (simp add: AddAllocs_alloc_def)
next
  case nt: False
  show ?thesis
  proof (cases "AllocResources a")
    case None
    then show ?thesis using nt
      AddAllocs_tasks_acc[of "''(deprecated) ''" "ID a" "map (\<lambda>(task, resources). (task, ResNetworks resources)) (TaskResources a)" c r idx]
      by (simp add: AddAllocs_alloc_def)
  next
    case (Some ar)
    show ?thesis
    proof (cases "length (SharedPorts (Shared ar)) > 0")
      case True
      obtain cc rr idx1 where p: "AddReservedPorts idx (SharedPorts (Shared ar)) = (cc, rr, idx1)"
        by (cases "AddReservedPorts idx (SharedPorts (Shared ar))")
      show ?thesis using nt Some True p by (simp add: AddAllocs_alloc_def)
    next
      case False
      let ?ts = "map (\<lambda>(task, resources). (task, TaskNetworkList resources)) (Tasks ar)"
      obtain c1 r1 i1 where n0: "AddAllocs_networks (ID a) (SharedNetworks (Shared ar)) (False, [], idx) = (c1, r1, i1)"
        by (cases "AddAllocs_networks (ID a) (SharedNetworks (Shared ar)) (False, [], idx)")
      obtain c2 r2 i2 where t0: "AddAllocs_tasks [] (ID a) ?ts (False, [], i1) = (c2, r2, i2)"
        by (cases "AddAllocs_tasks [] (ID a) ?ts (False, [], i1)")
      have n1: "AddAllocs_networks (ID a) (SharedNetworks (Shared ar)) (c, r, idx) = (c \<or> c1, if c1 then r1 else r, i1)"
        using AddAllocs_networks_acc[of "ID a" "SharedNetworks (Shared ar)" c r idx] n0 by simp
      have l: "AddAllocs_alloc a (c, r, idx) = later_wins (c \<or> c1, if c1 then r1 else r) (c2, r2, i2)"
        using nt Some False n1 t0 AddAllocs_tasks_acc[of "[]" "ID a" ?ts "c \<or> c1" "if c1 then r1 else r" i1]
        by (simp add: AddAllocs_alloc_def)
      have rr: "AddAllocs_alloc a (False, [], idx) = later_wins (c1, r1) (c2, r2, i2)"
        using nt Some False n0 t0 AddAllocs_tasks_acc[of "[]" "ID a" ?ts c1 r1 i1]
        by (simp add: AddAllocs_alloc_def)
      show ?thesis unfolding l rr by auto
    qed
  qed
qed

lemma AddAllocs_loop_acc:
  "AddAllocs_loop as (c, r, idx) = later_wins (c, r) (AddAllocs_loop as (False, [], idx))"
proof (induction as arbitrary: c r idx)
  case Nil
  then show ?case by simp
next
  case (Cons a as)
  obtain c1 r1 i1 where a: "AddAllocs_alloc a (False, [], idx) = (c1, r1, i1)"
    by (cases "AddAllocs_alloc a (False, [], idx)")
  have "AddAllocs_alloc a (c, r, idx) = (c \<or> c1, if c1 then r1 else r, i1)"
    using AddAllocs_alloc_acc[of a c r idx] a by simp
  then have "AddAllocs_loop (a # as) (c, r, idx) = later_wins (c \<or> c1, if c1 then r1 else r) (AddAllocs_loop as (False, [], i1))"
    using Cons.IH[of "c \<or> c1" "if c1 then r1 else r" i1] by simp
  moreover have "AddAllocs_loop (a # as) (False, [], idx) = later_wins (c1, r1) (AddAllocs_loop as (False, [], i1))"
    using a Cons.IH[of c1 r1 i1] by simp
  ultimately show ?case by (simp add: later_wins_assoc)
qed

lemma AddAllocs_loop_append:
  "AddAllocs_loop (as @ bs) acc = AddAllocs_loop bs (AddAllocs_loop as acc)"
  by (induction as arbitrary: acc) simp_all

lemma AddAllocs_append:
  "AddAllocs idx (as @ bs) =
     (case AddAllocs idx as of (c1, r1, idx1) \<Rightarrow> later_wins (c1, r1) (AddAllocs idx1 bs))"
proof -
  obtain c1 r1 i1 where a: "AddAllocs_loop as (False, [], idx) = (c1, r1, i1)"
    by (cases "AddAllocs_loop as (False, [], idx)")
  show ?thesis using a AddAllocs_loop_acc[of bs c1 r1 i1]
    by (simp add: AddAllocs_def AddAllocs_loop_append)
qed

lemma AddAllocs_terminal: "TerminalStatus a \<Longrightarrow> AddAllocs_alloc a acc = acc"
  by (cases acc) (simp add: AddAllocs_alloc_def)

lemma AddAllocs_loop_filter:
  "AddAllocs_loop (filter (\<lambda>a. \<not> TerminalStatus a) as) acc = AddAllocs_loop as acc"
  by (induction as arbitrary: acc) (simp_all add: AddAllocs_terminal)

lemma AddAllocs_no_collision_reason:
  "\<not> fst (AddAllocs idx as) \<Longrightarrow> fst (snd (AddAllocs idx as)) = []"
proof (induction as rule: rev_induct)
  case Nil
  then show ?case by (simp add: AddAllocs_def)
next
  case (snoc a as)
  obtain c1 r1 i1 where a: "AddAllocs idx as = (c1, r1, i1)" by (cases "AddAllocs idx as")
  obtain c2 r2 i2 where b: "AddAllocs i1 [a] = (c2, r2, i2)" by (cases "AddAllocs i1 [a]")
  from snoc.prems have "\<not> c1" "\<not> c2" using a b by (simp_all add: AddAllocs_append)
  then show ?case using snoc.IH a b by (simp add: AddAllocs_append)
qed

lemma AddAllocs_last_collision:
  "fst (AddAllocs idx allocs) \<Longrightarrow>
   \<exists>as a bs. allocs = as @ a # bs \<and> \<not> TerminalStatus a
      \<and> fst (AddAllocs (index_after idx as) [a])
      \<and> fst (snd (AddAllocs idx allocs)) = fst (snd (AddAllocs (index_after idx as) [a]))
      \<and> \<not> fst (AddAllocs (index_after idx (as @ [a])) bs)"
proof (induction allocs rule: rev_induct)
  case Nil
  then show ?case by (simp add: AddAllocs_def)
next
  case (snoc a allocs)
  obtain c1 r1 i1 where a: "AddAllocs idx allocs = (c1, r1, i1)" by (cases "AddAllocs idx allocs")
  obtain c2 r2 i2 where b: "AddAllocs i1 [a] = (c2, r2, i2)" by (cases "AddAllocs i1 [a]")
  have i1: "index_after idx allocs = i1" using a by (simp add: index_after_def)
  have whole: "AddAllocs idx (allocs @ [a]) = (c1 \<or> c2, if c2 then r2 else r1, i2)"
    using a b by (simp add: AddAllocs_append)
  show ?case
  proof (cases c2)
    case True
    have nt: "\<not> TerminalStatus a"
    proof
      assume "TerminalStatus a"
      then have "AddAllocs i1 [a] = (False, [], i1)" by (simp add: AddAllocs_def AddAllocs_terminal)
      with b True show False by simp
    qed
    have "allocs @ [a] = allocs @ a # []" by simp
    moreover have "fst (AddAllocs (index_after idx allocs) [a])" using b True i1 by simp
    moreover have "fst (snd (AddAllocs idx (allocs @ [a]))) = fst (snd (AddAllocs (index_after idx allocs) [a]))"
      using whole b True i1 by simp
    moreover have "\<not> fst (AddAllocs (index_after idx (allocs @ [a])) [])" by (simp add: AddAllocs_def)
    ultimately show ?thesis using nt by blast
  next
    case False
    with snoc.prems whole have c1 by simp
    with snoc.IH a obtain as x bs where h: "allocs = as @ x # bs" "\<not> TerminalStatus x"
      "fst (AddAllocs (index_after idx as) [x])"
      "fst (snd (AddAllocs idx allocs)) = fst (snd (AddAllocs (index_after idx as) [x]))"
      "\<not> fst (AddAllocs (index_after idx (as @ [x])) bs)" by auto
    have e: "allocs @ [a] = as @ x # (bs @ [a])" using h(1) by simp
    have r: "fst (snd (AddAllocs idx (allocs @ [a]))) = fst (snd (AddAllocs (index_after idx as) [x]))"
      using whole False a h(4) by simp
    have ia: "index_after idx allocs = index_after (index_after idx (as @ [x])) bs"
    proof -
      obtain c3 r3 i3 where p: "AddAllocs idx (as @ [x]) = (c3, r3, i3)" by (cases "AddAllocs idx (as @ [x])")
      have "AddAllocs idx ((as @ [x]) @ bs) = later_wins (c3, r3) (AddAllocs i3 bs)"
        using p by (simp only: AddAllocs_append[of idx "as @ [x]" bs] prod.case)
      then show ?thesis using p h(1) by (cases "AddAllocs i3 bs") (simp add: index_after_def)
    qed
    have "\<not> fst (AddAllocs (index_after idx (as @ [x])) (bs @ [a]))"
    proof -
      obtain c4 r4 i4 where q: "AddAllocs (index_after idx (as @ [x])) bs = (c4, r4, i4)"
        by (cases "AddAllocs (index_after idx (as @ [x])) bs")
      have "i4 = i1" using q ia i1 by (simp add: index_after_def)
      moreover have "\<not> c4" using h(5) q by simp
      ultimately show ?thesis using q b False by (simp add: AddAllocs_append)
    qed
    then show ?thesis using e h(2,3) r by blast
  qed
qed

subsection \<open>AddAllocs and the calls of the allocations\<close>

lemma report_Cons:
  "report ((pre, c) # rest) (collide, reason, idx) =
     report rest
       (if fst (do_call idx c)
        then (True, pre @ '': '' @ show_strings (fst (snd (do_call idx c))), snd (snd (do_call idx c)))
        else (collide, reason, snd (snd (do_call idx c))))"
  by (cases "do_call idx c") simp

declare report.simps(2) [simp del]

lemma report_append: "report (xs @ ys) acc = report ys (report xs acc)"
proof (induction xs arbitrary: acc)
  case Nil
  then show ?case by simp
next
  case (Cons x xs)
  obtain pre c where x: "x = (pre, c)" by (cases x)
  obtain collide reason idx where a: "acc = (collide, reason, idx)" by (cases acc)
  show ?case using Cons.IH by (simp add: x a report_Cons)
qed

lemma AddAllocs_networks_report:
  "AddAllocs_networks aid ns acc =
     report (map (\<lambda>n. (''collision when reserving port for network '' @ IP n @ '' in alloc '' @ aid,
                        CallAddReserved n)) ns) acc"
proof (induction ns arbitrary: acc)
  case Nil
  then show ?case by simp
next
  case (Cons n ns)
  obtain collide reason idx where a: "acc = (collide, reason, idx)" by (cases acc)
  obtain c r idx1 where d: "AddReserved idx n = (c, r, idx1)" by (cases "AddReserved idx n")
  show ?case using Cons.IH d by (simp add: a report_Cons)
qed

lemma AddAllocs_tasks_report:
  "AddAllocs_tasks pre aid ts acc = report (task_calls pre aid ts) acc"
proof (induction pre aid ts arbitrary: acc rule: task_calls.induct)
  case (1 pre aid)
  then show ?case by simp
next
  case (2 pre aid task rest)
  obtain collide reason idx where a: "acc = (collide, reason, idx)" by (cases acc)
  show ?case using 2 by (simp add: a)
next
  case (3 pre aid task n ns rest)
  obtain collide reason idx where a: "acc = (collide, reason, idx)" by (cases acc)
  obtain c r idx1 where d: "AddReserved idx n = (c, r, idx1)" by (cases "AddReserved idx n")
  show ?case using 3 d by (simp add: a report_Cons)
qed

lemma AddAllocs_alloc_report: "AddAllocs_alloc a acc = report (alloc_calls a) acc"
proof -
  obtain collide reason idx where acc: "acc = (collide, reason, idx)" by (cases acc)
  show ?thesis
  proof (cases "TerminalStatus a")
    case True
    then show ?thesis by (simp add: acc AddAllocs_alloc_def alloc_calls_def)
  next
    case nt: False
    show ?thesis
    proof (cases "AllocResources a")
      case None
      then show ?thesis using nt
        by (simp add: acc AddAllocs_alloc_def alloc_calls_def AddAllocs_tasks_report)
    next
      case (Some ar)
      show ?thesis
      proof (cases "SharedPorts (Shared ar) = []")
        case True
        then show ?thesis using nt Some
          by (simp add: acc AddAllocs_alloc_def alloc_calls_def AddAllocs_tasks_report
              AddAllocs_networks_report report_append)
      next
        case False
        obtain c r idx1 where d: "AddReservedPorts idx (SharedPorts (Shared ar)) = (c, r, idx1)"
          by (cases "AddReservedPorts idx (SharedPorts (Shared ar))")
        show ?thesis using nt Some False d
          by (simp add: acc AddAllocs_alloc_def alloc_calls_def report_Cons)
      qed
    qed
  qed
qed

lemma AddAllocs_loop_report: "AddAllocs_loop as acc = report (concat (map alloc_calls as)) acc"
  by (induction as arbitrary: acc) (simp_all add: AddAllocs_alloc_report report_append)

lemma AddAllocs_report: "AddAllocs idx allocs = report (concat (map alloc_calls allocs)) (False, [], idx)"
  by (simp add: AddAllocs_def AddAllocs_loop_report)

text \<open>The report has a collision when a call has one, and leaves the index that the calls leave.\<close>

lemma report_run_calls:
  "fst (report xs (c0, r0, idx)) = (c0 \<or> fst (run_calls (map snd xs) idx))
   \<and> snd (snd (report xs (c0, r0, idx))) = snd (run_calls (map snd xs) idx)"
proof (induction xs arbitrary: c0 r0 idx)
  case Nil
  then show ?case by simp
next
  case (Cons x xs)
  obtain pre c where x: "x = (pre, c)" by (cases x)
  show ?case using Cons.IH by (auto simp: x report_Cons run_calls_Cons)
qed

lemma reserved_by_call_ports: "reserved_by c ip = {p. (ip, int p) \<in> set (call_ports c)}"
proof (cases c)
  case (CallAddReserved n)
  then show ?thesis by (force simp: portMarks_def)
next
  case (CallAddReservedPorts ps)
  then show ?thesis by (force simp: marks_def)
qed

lemma AR_loop_collide:
  "fst (case AddReserved_loop ip ps (c0, rs0, idx) of Inl r \<Rightarrow> r | Inr r \<Rightarrow> r)
     \<longleftrightarrow> c0 \<or> (\<exists>q \<in> set ps. \<not> validPort (Value q) \<or> nat (Value q) \<in> portsOn idx ip)
           \<or> \<not> distinct (map Value ps)"
proof (induction ps arbitrary: c0 rs0 idx)
  case Nil
  then show ?case by simp
next
  case (Cons q ps)
  show ?case
  proof (cases "validPort (Value q)")
    case False
    then show ?thesis by (simp add: AR_loop_invalid)
  next
    case vq: True
    show ?thesis
    proof (cases "nat (Value q) \<in> portsOn idx ip")
      case True
      then show ?thesis using Cons.IH by (simp add: AR_loop_Cons_valid[OF vq])
    next
      case False
      have e: "\<And>x. validPort (Value x) \<Longrightarrow> (nat (Value x) = nat (Value q)) = (Value x = Value q)"
        using vq by (auto simp: validPort_def)
      have "(\<exists>x \<in> set ps. \<not> validPort (Value x) \<or> nat (Value x) \<in> insert (nat (Value q)) (portsOn idx ip))
          = ((\<exists>x \<in> set ps. \<not> validPort (Value x) \<or> nat (Value x) \<in> portsOn idx ip) \<or> Value q \<in> Value ` set ps)"
        (is "?L = ?R")
      proof
        assume ?L
        then obtain x where x: "x \<in> set ps"
          "\<not> validPort (Value x) \<or> nat (Value x) \<in> insert (nat (Value q)) (portsOn idx ip)" by blast
        show ?R
        proof (cases "validPort (Value x)")
          case False
          then show ?thesis using x(1) by blast
        next
          case True
          then have "Value x = Value q \<or> nat (Value x) \<in> portsOn idx ip" using x(2) e[OF True] by blast
          then show ?thesis
          proof
            assume "Value x = Value q"
            then have eq: "Value q = Value x" by simp
            have "Value q \<in> Value ` set ps" by (rule image_eqI[where x = x]) (rule eq, rule x(1))
            then show ?thesis by simp
          next
            assume "nat (Value x) \<in> portsOn idx ip"
            then show ?thesis using x(1) by blast
          qed
        qed
      next
        assume ?R
        then show ?L by force
      qed
      moreover have "fst (case AddReserved_loop ip (q # ps) (c0, rs0, idx) of Inl r \<Rightarrow> r | Inr r \<Rightarrow> r)
          = (c0 \<or> (\<exists>x \<in> set ps. \<not> validPort (Value x) \<or> nat (Value x) \<in> insert (nat (Value q)) (portsOn idx ip))
              \<or> \<not> distinct (map Value ps))"
        using False Cons.IH[of c0 rs0 "setUsed idx ip (nat (Value q))"]
        by (simp add: AR_loop_Cons_valid[OF vq])
      ultimately show ?thesis using False vq by simp
    qed
  qed
qed

lemma ARP_loop_collide:
  "fst (AddReservedPorts_loop ps (c0, rs0, idx))
     \<longleftrightarrow> c0 \<or> (\<exists>q \<in> set ps. \<not> validPort (PortValue q) \<or> nat (PortValue q) \<in> portsOn idx (HostIP q))
           \<or> \<not> distinct (map (\<lambda>q. (HostIP q, PortValue q)) ps)"
proof (induction ps arbitrary: c0 rs0 idx)
  case Nil
  then show ?case by simp
next
  case (Cons q ps)
  show ?case
  proof (cases "validPort (PortValue q)")
    case False
    then show ?thesis by (simp add: ARP_loop_invalid)
  next
    case vq: True
    show ?thesis
    proof (cases "nat (PortValue q) \<in> portsOn idx (HostIP q)")
      case True
      then show ?thesis using Cons.IH by (simp add: ARP_loop_Cons_valid[OF vq])
    next
      case False
      let ?idx1 = "setUsed (snd (getUsedPortsFor idx (HostIP q))) (HostIP q) (nat (PortValue q))"
      have e: "\<And>x. validPort (PortValue x) \<Longrightarrow> (nat (PortValue x) = nat (PortValue q)) = (PortValue x = PortValue q)"
        using vq by (auto simp: validPort_def)
      have p: "\<And>x. portsOn ?idx1 x = (if x = HostIP q then insert (nat (PortValue q)) (portsOn idx x) else portsOn idx x)"
        by simp
      have "(\<exists>x \<in> set ps. \<not> validPort (PortValue x) \<or> nat (PortValue x) \<in> portsOn ?idx1 (HostIP x))
          = ((\<exists>x \<in> set ps. \<not> validPort (PortValue x) \<or> nat (PortValue x) \<in> portsOn idx (HostIP x))
              \<or> (HostIP q, PortValue q) \<in> (\<lambda>q. (HostIP q, PortValue q)) ` set ps)"
        (is "?L = ?R")
      proof
        assume ?L
        then obtain x where x: "x \<in> set ps"
          "\<not> validPort (PortValue x) \<or> nat (PortValue x) \<in> portsOn ?idx1 (HostIP x)" by blast
        show ?R
        proof (cases "validPort (PortValue x)")
          case False
          then show ?thesis using x(1) by blast
        next
          case True
          then have "(HostIP x = HostIP q \<and> PortValue x = PortValue q) \<or> nat (PortValue x) \<in> portsOn idx (HostIP x)"
            using x(2) e[OF True] unfolding p by (cases "HostIP x = HostIP q") auto
          then show ?thesis
          proof
            assume "HostIP x = HostIP q \<and> PortValue x = PortValue q"
            then have eq: "(HostIP q, PortValue q) = (\<lambda>q. (HostIP q, PortValue q)) x" by simp
            have "(HostIP q, PortValue q) \<in> (\<lambda>q. (HostIP q, PortValue q)) ` set ps"
              by (rule image_eqI[where x = x]) (rule eq, rule x(1))
            then show ?thesis by simp
          next
            assume "nat (PortValue x) \<in> portsOn idx (HostIP x)"
            then show ?thesis using x(1) by blast
          qed
        qed
      next
        assume ?R
        then consider (a) x where "x \<in> set ps"
            "\<not> validPort (PortValue x) \<or> nat (PortValue x) \<in> portsOn idx (HostIP x)"
          | (b) x where "x \<in> set ps" "HostIP x = HostIP q" "PortValue x = PortValue q"
          by (auto simp: image_iff)
        then show ?L
        proof cases
          case a
          have "\<not> validPort (PortValue x) \<or> nat (PortValue x) \<in> portsOn ?idx1 (HostIP x)"
            using a(2) unfolding p by auto
          then show ?thesis using a(1) by blast
        next
          case b
          have "nat (PortValue x) \<in> portsOn ?idx1 (HostIP x)" unfolding p using b(2,3) by simp
          then show ?thesis using b(1) by blast
        qed
      qed
      moreover have "fst (AddReservedPorts_loop (q # ps) (c0, rs0, idx))
          = (c0 \<or> (\<exists>x \<in> set ps. \<not> validPort (PortValue x) \<or> nat (PortValue x) \<in> portsOn ?idx1 (HostIP x))
              \<or> \<not> distinct (map (\<lambda>q. (HostIP q, PortValue q)) ps))"
        using False Cons.IH[of c0 rs0 ?idx1]
        by (simp only: ARP_loop_Cons_valid[OF vq] if_False)
      ultimately show ?thesis using False vq by simp
    qed
  qed
qed

lemma distinct_map_pair: "distinct (map (\<lambda>q. (a, f q)) ps) = distinct (map f ps)"
  by (induction ps) (auto simp: image_iff)

lemma reuse_map:
  "reuse idx (map (\<lambda>q. (a, f q)) ps) =
     ((\<exists>q \<in> set ps. \<not> validPort (f q) \<or> nat (f q) \<in> portsOn idx a) \<or> \<not> distinct (map f ps))"
  by (simp add: reuse_def distinct_map_pair Check_def)

lemma fst_AddReserved:
  "fst (AddReserved idx n) =
     fst (case AddReserved_loop (IP n) (ReservedPorts n @ DynamicPorts n) (False, [], snd (getUsedPortsFor idx (IP n))) of
            Inl r \<Rightarrow> r | Inr r \<Rightarrow> r)"
  by (simp add: AddReserved_unfold split: sum.split prod.split)

lemma do_call_collide: "fst (do_call idx c) = reuse idx (call_ports c)"
proof (cases c)
  case (CallAddReserved n)
  let ?ps = "ReservedPorts n @ DynamicPorts n"
  have "fst (do_call idx c) =
      ((\<exists>q \<in> set ?ps. \<not> validPort (Value q) \<or> nat (Value q) \<in> portsOn idx (IP n)) \<or> \<not> distinct (map Value ?ps))"
    using AR_loop_collide[of "IP n" ?ps False "[]" "snd (getUsedPortsFor idx (IP n))"]
    unfolding CallAddReserved do_call.simps fst_AddReserved by simp
  moreover have "reuse idx (call_ports c) =
      ((\<exists>q \<in> set ?ps. \<not> validPort (Value q) \<or> nat (Value q) \<in> portsOn idx (IP n)) \<or> \<not> distinct (map Value ?ps))"
    unfolding CallAddReserved call_ports.simps by (rule reuse_map)
  ultimately show ?thesis by simp
next
  case (CallAddReservedPorts ps)
  show ?thesis using ARP_loop_collide[of ps False "[]" idx]
    unfolding CallAddReservedPorts reuse_def
    by (simp add: AddReservedPorts_def Check_def)
qed

lemma reuse_append:
  assumes "\<not> reuse idx ps" "\<forall>ip. portsOn idx1 ip = portsOn idx ip \<union> {p. (ip, int p) \<in> set ps}"
  shows "reuse idx1 qs = reuse idx (ps @ qs)"
proof -
  have v: "\<And>ip v. (ip, v) \<in> set ps \<Longrightarrow> validPort v \<and> nat v \<notin> portsOn idx ip" and d: "distinct ps"
    using assms(1) by (auto simp: reuse_def Check_def)
  have m: "\<And>ip v. validPort v \<Longrightarrow> nat v \<in> portsOn idx1 ip \<longleftrightarrow> nat v \<in> portsOn idx ip \<or> (ip, v) \<in> set ps"
    using assms(2) by (auto simp: validPort_def)
  show ?thesis
  proof
    assume "reuse idx1 qs"
    then consider (a) ip v where "(ip, v) \<in> set qs" "\<not> validPort v"
      | (b) ip v where "(ip, v) \<in> set qs" "validPort v" "nat v \<in> portsOn idx1 ip"
      | (c) "\<not> distinct qs"
      by (auto simp: reuse_def Check_def)
    then show "reuse idx (ps @ qs)"
    proof cases
      case a
      then show ?thesis by (auto simp: reuse_def)
    next
      case b
      then show ?thesis using m[OF b(2), of ip] by (auto simp: reuse_def Check_def)
    next
      case c
      then show ?thesis by (simp add: reuse_def)
    qed
  next
    assume "reuse idx (ps @ qs)"
    then consider (a) ip v where "(ip, v) \<in> set qs" "\<not> validPort v \<or> nat v \<in> portsOn idx ip"
      | (c) "\<not> distinct qs" | (e) ip v where "(ip, v) \<in> set ps" "(ip, v) \<in> set qs"
      using v d by (auto simp: reuse_def Check_def)
    then show "reuse idx1 qs"
    proof cases
      case a
      then show ?thesis using m[of v ip] by (auto simp: reuse_def Check_def)
    next
      case c
      then show ?thesis by (simp add: reuse_def)
    next
      case e
      then show ?thesis using m[of v ip] v[OF e(1)] by (auto simp: reuse_def Check_def)
    qed
  qed
qed

lemma reuse_prefix: "reuse idx ps \<Longrightarrow> reuse idx (ps @ qs)"
  by (auto simp: reuse_def)

lemma run_calls_collide: "fst (run_calls cs idx) = reuse idx (concat (map call_ports cs))"
proof (induction cs arbitrary: idx)
  case Nil
  then show ?case by (simp add: reuse_def)
next
  case (Cons c cs)
  show ?case
  proof (cases "fst (do_call idx c)")
    case True
    then show ?thesis using reuse_prefix[of idx "call_ports c" "concat (map call_ports cs)"]
      by (simp add: run_calls_Cons do_call_collide)
  next
    case False
    have p: "\<forall>ip. portsOn (snd (snd (do_call idx c))) ip = portsOn idx ip \<union> {p. (ip, int p) \<in> set (call_ports c)}"
      using do_call_ports[OF False] by (simp add: reserved_by_call_ports)
    have n: "\<not> reuse idx (call_ports c)" using False by (simp add: do_call_collide)
    show ?thesis using False Cons.IH[of "snd (snd (do_call idx c))"] reuse_append[OF n p]
      by (simp add: run_calls_Cons)
  qed
qed

lemma AddAllocs_reuse: "fst (AddAllocs idx allocs) = reuse idx (alloc_ports allocs)"
proof -
  have "(\<lambda>(pre :: string, c). call_ports c) = call_ports \<circ> snd"
    by (simp add: fun_eq_iff)
  then show ?thesis
    using report_run_calls[of "concat (map alloc_calls allocs)" False "[]" idx]
    by (simp add: AddAllocs_report run_calls_collide alloc_ports_def)
qed

lemma report_no_collision:
  "\<not> fst (run_calls (map snd xs) idx) \<Longrightarrow> fst (snd (report xs (c0, r0, idx))) = r0"
proof (induction xs arbitrary: c0 r0 idx)
  case Nil
  then show ?case by simp
next
  case (Cons x xs)
  obtain pre c where x: "x = (pre, c)" by (cases x)
  from Cons.prems have a: "\<not> fst (do_call idx c)" and b: "\<not> fst (run_calls (map snd xs) (snd (snd (do_call idx c))))"
    by (simp_all add: x run_calls_Cons)
  show ?case using Cons.IH[OF b] a by (simp add: x report_Cons)
qed

lemma report_reason:
  "fst (run_calls (map snd xs) idx) \<Longrightarrow>
   \<exists>ys pre c zs. xs = ys @ (pre, c) # zs
      \<and> fst (do_call (snd (run_calls (map snd ys) idx)) c)
      \<and> fst (snd (report xs (c0, r0, idx)))
          = pre @ '': '' @ show_strings (fst (snd (do_call (snd (run_calls (map snd ys) idx)) c)))
      \<and> \<not> fst (run_calls (map snd zs) (snd (snd (do_call (snd (run_calls (map snd ys) idx)) c))))"
proof (induction xs arbitrary: c0 r0 idx)
  case Nil
  then show ?case by simp
next
  case (Cons x xs)
  obtain pre c where x: "x = (pre, c)" by (cases x)
  let ?idx1 = "snd (snd (do_call idx c))"
  show ?case
  proof (cases "fst (run_calls (map snd xs) ?idx1)")
    case True
    let ?acc = "if fst (do_call idx c)
        then (True, pre @ '': '' @ show_strings (fst (snd (do_call idx c))), ?idx1)
        else (c0, r0, ?idx1)"
    from Cons.IH[OF True, of "fst ?acc" "fst (snd ?acc)"]
    obtain ys pre' c' zs where h: "xs = ys @ (pre', c') # zs"
      "fst (do_call (snd (run_calls (map snd ys) ?idx1)) c')"
      "fst (snd (report xs (fst ?acc, fst (snd ?acc), ?idx1)))
          = pre' @ '': '' @ show_strings (fst (snd (do_call (snd (run_calls (map snd ys) ?idx1)) c')))"
      "\<not> fst (run_calls (map snd zs) (snd (snd (do_call (snd (run_calls (map snd ys) ?idx1)) c'))))"
      by blast
    have r: "report (x # xs) (c0, r0, idx) = report xs (fst ?acc, fst (snd ?acc), ?idx1)"
      by (simp add: x report_Cons)
    have s: "snd (run_calls (map snd (x # ys)) idx) = snd (run_calls (map snd ys) ?idx1)"
      by (simp add: x run_calls_Cons)
    have "x # xs = (x # ys) @ (pre', c') # zs" using h(1) by simp
    then show ?thesis using h(2,3,4) unfolding r s[symmetric] by blast
  next
    case False
    with Cons.prems have a: "fst (do_call idx c)" by (simp add: x run_calls_Cons)
    have "fst (snd (report (x # xs) (c0, r0, idx))) = pre @ '': '' @ show_strings (fst (snd (do_call idx c)))"
      using a report_no_collision[OF False] by (simp add: x report_Cons)
    moreover have "x # xs = [] @ (pre, c) # xs" by (simp add: x)
    ultimately show ?thesis using a False
      by (metis list.simps(8) run_calls.simps(1) snd_conv)
  qed
qed

lemmas report_eval_defs = alloc_calls_def task_calls.simps report.simps call_ports.simps
  alloc_ports_def reuse_def validPort_def do_call.simps

lemma AddAllocs_index: "index_after idx allocs = snd (run_calls (map snd (concat (map alloc_calls allocs))) idx)"
  using report_run_calls[of "concat (map alloc_calls allocs)" False "[]" idx]
  by (simp add: index_after_def AddAllocs_report)

lemma run_calls_reserved: "(\<Union>c \<in> set cs. reserved_by c ip) = {p. (ip, int p) \<in> set (concat (map call_ports cs))}"
  by (auto simp: reserved_by_call_ports)

lemma alloc_ports_calls: "alloc_ports allocs = concat (map call_ports (map snd (concat (map alloc_calls allocs))))"
proof -
  have "(\<lambda>(pre :: string, c). call_ports c) = call_ports \<circ> snd"
    by (simp add: fun_eq_iff)
  then show ?thesis by (simp add: alloc_ports_def)
qed

lemma AddAllocs_ports:
  assumes "\<not> fst (AddAllocs idx allocs)"
  shows "portsOn (index_after idx allocs) ip = portsOn idx ip \<union> {p. (ip, int p) \<in> set (alloc_ports allocs)}"
proof -
  let ?cs = "map snd (concat (map alloc_calls allocs))"
  have "\<not> fst (run_calls ?cs idx)"
    using assms report_run_calls[of "concat (map alloc_calls allocs)" False "[]" idx]
    by (simp add: AddAllocs_report)
  from run_calls_ports[OF this, of ip] show ?thesis
    unfolding AddAllocs_index alloc_ports_calls run_calls_reserved .
qed

lemma AddAllocs_reason:
  assumes "fst (AddAllocs idx allocs)"
  shows "\<exists>ys pre c zs. concat (map alloc_calls allocs) = ys @ (pre, c) # zs
      \<and> fst (do_call (snd (run_calls (map snd ys) idx)) c)
      \<and> fst (snd (AddAllocs idx allocs))
          = pre @ '': '' @ show_strings (fst (snd (do_call (snd (run_calls (map snd ys) idx)) c)))
      \<and> \<not> fst (run_calls (map snd zs) (snd (snd (do_call (snd (run_calls (map snd ys) idx)) c))))"
proof -
  have "fst (run_calls (map snd (concat (map alloc_calls allocs))) idx)"
    using assms report_run_calls[of "concat (map alloc_calls allocs)" False "[]" idx]
    by (simp add: AddAllocs_report)
  from report_reason[OF this, of False "[]"] show ?thesis by (simp add: AddAllocs_report)
qed

text \<open>
  C7: \<^verbatim>\<open>AddAllocs\<close> makes the calls of the allocations that are not terminal, one after
  the other, and does not stop at a collision. It reports \<open>collide = true\<close> exactly when a
  port of these calls is not valid, is marked in the index already, or is named twice: every
  reuse of a port is detected. No port of the index is cleared, and without a collision the
  ports marked afterwards are those of the index and of the calls. With a collision the
  reason is the one of the last call that collides: the text of that call, which names the
  address, the task and the allocation, then \<^verbatim>\<open>: \<close> and the reasons that the call gives
  for its ports. A terminal allocation is passed over: the result is the one for the list
  without them, and a terminal allocation alone leaves the index as it is. The allocations
  after any part of the list are added to the index that this part leaves, whatever it
  reported; the reason is the one that the last colliding allocation gives, and without a
  collision the reason is empty.
\<close>

theorem AddAllocs_skips_terminal_and_reports_last:
  "AddAllocs idx allocs = report (concat (map alloc_calls allocs)) (False, [], idx)
   \<and> fst (AddAllocs idx allocs) = reuse idx (alloc_ports allocs)
   \<and> (\<forall>ip. portsOn idx ip \<subseteq> portsOn (index_after idx allocs) ip)
   \<and> (\<not> fst (AddAllocs idx allocs) \<longrightarrow>
        (\<forall>ip. portsOn (index_after idx allocs) ip
               = portsOn idx ip \<union> {p. (ip, int p) \<in> set (alloc_ports allocs)}))
   \<and> (fst (AddAllocs idx allocs) \<longrightarrow>
        (\<exists>ys pre c zs. concat (map alloc_calls allocs) = ys @ (pre, c) # zs
           \<and> fst (do_call (snd (run_calls (map snd ys) idx)) c)
           \<and> fst (snd (AddAllocs idx allocs))
               = pre @ '': '' @ show_strings (fst (snd (do_call (snd (run_calls (map snd ys) idx)) c)))
           \<and> \<not> fst (run_calls (map snd zs) (snd (snd (do_call (snd (run_calls (map snd ys) idx)) c))))))
   \<and> AddAllocs idx allocs = AddAllocs idx (filter (\<lambda>a. \<not> TerminalStatus a) allocs)
   \<and> (TerminalStatus t \<longrightarrow> AddAllocs idx [t] = (False, [], idx))
   \<and> AddAllocs idx (allocs @ more_allocs) =
        (case AddAllocs idx allocs of (c1, r1, idx1) \<Rightarrow> later_wins (c1, r1) (AddAllocs idx1 more_allocs))
   \<and> (fst (AddAllocs idx allocs) \<longrightarrow>
        (\<exists>as a bs. allocs = as @ a # bs \<and> \<not> TerminalStatus a
           \<and> fst (AddAllocs (index_after idx as) [a])
           \<and> fst (snd (AddAllocs idx allocs)) = fst (snd (AddAllocs (index_after idx as) [a]))
           \<and> \<not> fst (AddAllocs (index_after idx (as @ [a])) bs)))
   \<and> (\<not> fst (AddAllocs idx allocs) \<longrightarrow> fst (snd (AddAllocs idx allocs)) = [])"
proof (intro conjI impI allI)
  show "AddAllocs idx allocs = report (concat (map alloc_calls allocs)) (False, [], idx)"
    by (rule AddAllocs_report)
  show "fst (AddAllocs idx allocs) = reuse idx (alloc_ports allocs)"
    by (rule AddAllocs_reuse)
  show "portsOn idx ip \<subseteq> portsOn (index_after idx allocs) ip" for ip
    unfolding AddAllocs_index by (rule run_calls_mono)
  show "portsOn (index_after idx allocs) ip = portsOn idx ip \<union> {p. (ip, int p) \<in> set (alloc_ports allocs)}"
    if "\<not> fst (AddAllocs idx allocs)" for ip
    using that by (rule AddAllocs_ports)
  show "\<exists>ys pre c zs. concat (map alloc_calls allocs) = ys @ (pre, c) # zs
           \<and> fst (do_call (snd (run_calls (map snd ys) idx)) c)
           \<and> fst (snd (AddAllocs idx allocs))
               = pre @ '': '' @ show_strings (fst (snd (do_call (snd (run_calls (map snd ys) idx)) c)))
           \<and> \<not> fst (run_calls (map snd zs) (snd (snd (do_call (snd (run_calls (map snd ys) idx)) c))))"
    if "fst (AddAllocs idx allocs)"
    using that by (rule AddAllocs_reason)
  show "AddAllocs idx allocs = AddAllocs idx (filter (\<lambda>a. \<not> TerminalStatus a) allocs)"
    by (simp add: AddAllocs_def AddAllocs_loop_filter)
  show "AddAllocs idx [t] = (False, [], idx)" if "TerminalStatus t"
    using that by (simp add: AddAllocs_def AddAllocs_terminal)
  show "AddAllocs idx (allocs @ more_allocs) =
        (case AddAllocs idx allocs of (c1, r1, idx1) \<Rightarrow> later_wins (c1, r1) (AddAllocs idx1 more_allocs))"
    by (rule AddAllocs_append)
  show "\<exists>as a bs. allocs = as @ a # bs \<and> \<not> TerminalStatus a
           \<and> fst (AddAllocs (index_after idx as) [a])
           \<and> fst (snd (AddAllocs idx allocs)) = fst (snd (AddAllocs (index_after idx as) [a]))
           \<and> \<not> fst (AddAllocs (index_after idx (as @ [a])) bs)" if "fst (AddAllocs idx allocs)"
    using that by (rule AddAllocs_last_collision)
  show "fst (snd (AddAllocs idx allocs)) = []" if "\<not> fst (AddAllocs idx allocs)"
    using that by (rule AddAllocs_no_collision_reason)
qed

theorem AddAllocs_skips_terminal_and_reports_last_witness:
  "AddAllocs NewNetworkIndex [ex_legacy_alloc ''l1'', ex_legacy_alloc ''l2'']
     = (True,
        ''(deprecated) collision when reserving port for network 10.0.0.1 in task web of alloc l2: [port 80 already in use]'',
        index_after NewNetworkIndex [ex_legacy_alloc ''l1'', ex_legacy_alloc ''l2''])
   \<and> alloc_ports [ex_legacy_alloc ''l1'', ex_legacy_alloc ''l2''] = [(''10.0.0.1'', 80), (''10.0.0.1'', 80)]
   \<and> AddAllocs NewNetworkIndex [ex_group_alloc]
     = (True,
        ''collision when reserving port for network 10.0.0.1 in task web of alloc g1: [port 80 already in use]'',
        index_after NewNetworkIndex [ex_group_alloc])
   \<and> AddAllocs NewNetworkIndex [ex_legacy_alloc ''l1''] = (False, [], index_after NewNetworkIndex [ex_legacy_alloc ''l1''])
   \<and> portsOn (index_after NewNetworkIndex [ex_legacy_alloc ''l1'']) ''10.0.0.1'' = {80}
   \<and> AddAllocs NewNetworkIndex ex_allocs
     = (True, ''collision when reserving port for alloc a3: [port 80 already in use]'',
        index_after NewNetworkIndex ex_allocs)
   \<and> portsOn (index_after NewNetworkIndex ex_allocs) ''10.0.0.1'' = {80, 90}
   \<and> AddAllocs NewNetworkIndex [ex_alloc ''t'' True [ex_bad]] = (False, [], NewNetworkIndex)"
proof -
  let ?t = "ex_alloc ''t'' True [ex_bad]"
  let ?l1 = "ex_legacy_alloc ''l1''" and ?l2 = "ex_legacy_alloc ''l2''"
  note two = AddAllocs_skips_terminal_and_reports_last[of NewNetworkIndex "[?l1, ?l2]" ?t "[]"]
  note grp = AddAllocs_skips_terminal_and_reports_last[of NewNetworkIndex "[ex_group_alloc]" ?t "[]"]
  note one = AddAllocs_skips_terminal_and_reports_last[of NewNetworkIndex "[?l1]" ?t "[]"]
  note many = AddAllocs_skips_terminal_and_reports_last[of NewNetworkIndex ex_allocs ?t "[]"]
  have p2: "alloc_ports [?l1, ?l2] = [(''10.0.0.1'', 80), (''10.0.0.1'', 80)]"
    by (simp add: ex_defs report_eval_defs)
  have r2: "fst (snd (report (concat (map alloc_calls [?l1, ?l2])) (False, [], NewNetworkIndex)))
      = ''(deprecated) collision when reserving port for network 10.0.0.1 in task web of alloc l2: [port 80 already in use]''"
    by (simp add: ex_defs report_eval_defs eval_defs alloc_eval_defs)
  have c2: "fst (AddAllocs NewNetworkIndex [?l1, ?l2])"
    using two[THEN conjunct2, THEN conjunct1] unfolding p2 by (simp add: reuse_def)
  have a2: "AddAllocs NewNetworkIndex [?l1, ?l2]
     = (True,
        ''(deprecated) collision when reserving port for network 10.0.0.1 in task web of alloc l2: [port 80 already in use]'',
        index_after NewNetworkIndex [?l1, ?l2])"
  proof -
    have "fst (snd (AddAllocs NewNetworkIndex [?l1, ?l2]))
      = ''(deprecated) collision when reserving port for network 10.0.0.1 in task web of alloc l2: [port 80 already in use]''"
      using r2 unfolding two[THEN conjunct1] .
    then show ?thesis using c2 unfolding index_after_def
      by (cases "AddAllocs NewNetworkIndex [?l1, ?l2]") simp
  qed
  have rg: "report (concat (map alloc_calls [ex_group_alloc])) (False, [], NewNetworkIndex)
      = (True, ''collision when reserving port for network 10.0.0.1 in task web of alloc g1: [port 80 already in use]'',
         snd (snd (report (concat (map alloc_calls [ex_group_alloc])) (False, [], NewNetworkIndex))))"
    by (simp add: ex_defs report_eval_defs eval_defs alloc_eval_defs)
  have ag: "AddAllocs NewNetworkIndex [ex_group_alloc]
     = (True,
        ''collision when reserving port for network 10.0.0.1 in task web of alloc g1: [port 80 already in use]'',
        index_after NewNetworkIndex [ex_group_alloc])"
    using rg unfolding index_after_def grp[THEN conjunct1] .
  have p1: "alloc_ports [?l1] = [(''10.0.0.1'', 80)]"
    by (simp add: ex_defs report_eval_defs)
  have c1: "\<not> fst (AddAllocs NewNetworkIndex [?l1])"
    using one[THEN conjunct2, THEN conjunct1] unfolding p1
    by (simp add: reuse_def validPort_def MaxValidPort_def NewNetworkIndex_no_ports Check_def)
  have "fst (snd (AddAllocs NewNetworkIndex [?l1])) = []" using one c1 by blast
  then have a1: "AddAllocs NewNetworkIndex [?l1] = (False, [], index_after NewNetworkIndex [?l1])"
    using c1 unfolding index_after_def by (cases "AddAllocs NewNetworkIndex [?l1]") simp
  have "portsOn (index_after NewNetworkIndex [?l1]) ''10.0.0.1''
      = portsOn NewNetworkIndex ''10.0.0.1'' \<union> {p. (''10.0.0.1'', int p) \<in> set (alloc_ports [?l1])}"
    using one c1 by blast
  then have m1: "portsOn (index_after NewNetworkIndex [?l1]) ''10.0.0.1'' = {80}"
    unfolding p1 by (auto simp: NewNetworkIndex_no_ports)
  let ?live = "[ex_alloc ''a1'' False [ex_http], ex_alloc ''a2'' False [ex_http],
      ex_alloc ''a3'' False [ex_http], ex_alloc ''a4'' False [ex_later]]"
  have f: "filter (\<lambda>a. \<not> TerminalStatus a) ex_allocs = ?live"
    by (simp add: ex_allocs_def ex_alloc_def)
  have t: "TerminalStatus ?t" by (simp add: ex_alloc_def)
  have l1: "fst (AddAllocs NewNetworkIndex ?live)"
    by (simp add: ex_alloc_def ex_defs alloc_eval_defs eval_defs)
  have l2: "fst (snd (AddAllocs NewNetworkIndex ?live))
      = ''collision when reserving port for alloc a3: [port 80 already in use]''"
    by (simp add: ex_alloc_def ex_defs alloc_eval_defs eval_defs)
  have l3: "portsOn (snd (snd (AddAllocs NewNetworkIndex ?live))) ''10.0.0.1'' = {80, 90}"
    by (simp add: ex_alloc_def ex_defs alloc_eval_defs eval_defs insert_commute)
  have w: "AddAllocs NewNetworkIndex ex_allocs = AddAllocs NewNetworkIndex ?live"
    using many[THEN conjunct2, THEN conjunct2, THEN conjunct2, THEN conjunct2, THEN conjunct2,
        THEN conjunct1] unfolding f .
  have tt: "AddAllocs NewNetworkIndex [?t] = (False, [], NewNetworkIndex)"
    using many[THEN conjunct2, THEN conjunct2, THEN conjunct2, THEN conjunct2, THEN conjunct2,
        THEN conjunct2, THEN conjunct1] t by simp
  have am: "AddAllocs NewNetworkIndex ex_allocs
     = (True, ''collision when reserving port for alloc a3: [port 80 already in use]'',
        index_after NewNetworkIndex ex_allocs)"
    using l1 l2 unfolding w index_after_def by (cases "AddAllocs NewNetworkIndex ?live") simp
  have pm: "portsOn (index_after NewNetworkIndex ex_allocs) ''10.0.0.1'' = {80, 90}"
    using l3 unfolding w index_after_def by simp
  show ?thesis using a2 p2 ag a1 m1 am pm tt by simp
qed

subsection \<open>The precise selector\<close>


lemma to_uint_nonneg: "0 \<le> x \<Longrightarrow> int64 x \<Longrightarrow> to_uint x = nat x"
  by (simp add: to_uint_def int64_def)

lemma setReserved_valid:
  "\<forall>p \<in> set reserved. validPort (Value p) \<Longrightarrow> setReserved b reserved = Inr (b \<union> portMarks reserved)"
proof (induction reserved arbitrary: b)
  case Nil
  then show ?case by simp
next
  case (Cons p ps)
  then have v: "validPort (Value p)" by simp
  then have i: "in_bitmap (to_uint (Value p))" and n: "0 \<le> Value p"
    by (simp_all add: to_uint_valid in_bitmap_def validPort_def)
  show ?case using Cons i n v by (auto simp: Set_bit_def to_uint_valid portMarks_Cons)
qed

lemma IndexesInRange_unset:
  "set (IndexesInRange b False lo hi) = int ` {i. lo \<le> i \<and> i \<le> hi \<and> int i < MaxValidPort \<and> i \<notin> b}"
  "distinct (IndexesInRange b False lo hi)"
  "length (IndexesInRange b False lo hi) = card {i. lo \<le> i \<and> i \<le> hi \<and> int i < MaxValidPort \<and> i \<notin> b}"
proof -
  let ?xs = "filter (\<lambda>i. Check b i = False) [lo ..< min (Suc hi) (nat MaxValidPort)]"
  have s: "set ?xs = {i. lo \<le> i \<and> i \<le> hi \<and> int i < MaxValidPort \<and> i \<notin> b}"
    by (auto simp: Check_def MaxValidPort_def)
  have d: "distinct ?xs" by simp
  show "set (IndexesInRange b False lo hi) = int ` {i. lo \<le> i \<and> i \<le> hi \<and> int i < MaxValidPort \<and> i \<notin> b}"
    unfolding IndexesInRange_def using s by simp
  show "distinct (IndexesInRange b False lo hi)"
    unfolding IndexesInRange_def using d by (simp add: distinct_map)
  show "length (IndexesInRange b False lo hi) = card {i. lo \<le> i \<and> i \<le> hi \<and> int i < MaxValidPort \<and> i \<notin> b}"
    unfolding IndexesInRange_def using distinct_card[OF d] s by simp
qed

lemma Intn_pos:
  "0 < n \<Longrightarrow> \<exists>j g'. Intn g n = Inr (j, g') \<and> 0 \<le> j \<and> j < n"
  by (simp add: Intn_def)

lemma swaps_shuffle:
  "i + k \<le> length xs \<Longrightarrow>
   \<exists>ys g'. swaps k i xs g = (Inr ys, g') \<and> set ys = set xs \<and> distinct ys = distinct xs
       \<and> length ys = length xs"
proof (induction k arbitrary: i xs g)
  case 0
  then show ?case by simp
next
  case (Suc k)
  then have pos: "0 < int (length xs)" and il: "i < length xs" by auto
  from Intn_pos[OF pos, of g] obtain j g' where j: "Intn g (int (length xs)) = Inr (j, g')" "0 \<le> j" "j < int (length xs)"
    by blast
  then have jl: "nat j < length xs" by simp
  let ?xs = "xs[i := xs ! nat j, nat j := xs ! i]"
  have l: "length ?xs = length xs" by simp
  from Suc.IH[of "Suc i" ?xs g'] Suc.prems
  obtain ys g'' where h: "swaps k (Suc i) ?xs g' = (Inr ys, g'')" "set ys = set ?xs" "distinct ys = distinct ?xs"
    "length ys = length ?xs" by auto
  have "swaps (Suc k) i xs g = (Inr ys, g'')" using j(1) h(1) by simp
  moreover have "set ys = set xs" using h(2) set_swap[OF il jl] by simp
  moreover have "distinct ys = distinct xs" using h(3) distinct_swap[OF il jl] by simp
  ultimately show ?case using h(4) by auto
qed

lemma portMarks_image: "p \<in> portMarks reserved \<longleftrightarrow> int p \<in> Value ` set reserved"
  by (force simp: portMarks_def)

lemma freePorts_alt:
  assumes "0 \<le> mn" "int64 mn" "0 \<le> mx" "int64 mx"
  shows "freePorts nodeUsed mn mx reserved =
     {i. to_uint mn \<le> i \<and> i \<le> to_uint mx \<and> int i < MaxValidPort
         \<and> i \<notin> (case nodeUsed of Some b \<Rightarrow> b | None \<Rightarrow> NewBitmap) \<union> portMarks reserved}"
  using assms by (auto simp: freePorts_def to_uint_nonneg portMarks_image NewBitmap_def split: option.splits)

text \<open>
  C5: for port bounds that are non-negative values of a Go \<^verbatim>\<open>int\<close>, reserved ports with
  valid values and a count that is not negative, the precise selector fails with the error
  \<^verbatim>\<open>dynamic port selection failed\<close> iff the number of free ports of the dynamic range is
  smaller than the count; otherwise it returns as many ports as the count says, without
  repetition, each within the bounds, not set in the bitmap and not among the reserved
  values. This holds whatever numbers are drawn.
\<close>

theorem precise_fails_iff_too_few_free:
  assumes "0 \<le> minDynamicPort" "int64 minDynamicPort" "0 \<le> maxDynamicPort" "int64 maxDynamicPort"
    and "\<forall>p \<in> set reserved. validPort (Value p)" and "0 \<le> numDyn"
  shows "(fst (getDynamicPortsPrecise nodeUsed minDynamicPort maxDynamicPort reserved numDyn g)
            = Inl (Err ''dynamic port selection failed'')
          \<longleftrightarrow> int (card (freePorts nodeUsed minDynamicPort maxDynamicPort reserved)) < numDyn)
       \<and> (\<not> int (card (freePorts nodeUsed minDynamicPort maxDynamicPort reserved)) < numDyn \<longrightarrow>
            (\<exists>ports. fst (getDynamicPortsPrecise nodeUsed minDynamicPort maxDynamicPort reserved numDyn g)
                        = Inr ports
               \<and> int (length ports) = numDyn \<and> distinct ports
               \<and> (\<forall>v \<in> set ports. minDynamicPort \<le> v \<and> v \<le> maxDynamicPort \<and> validPort v
                      \<and> nat v \<notin> (case nodeUsed of None \<Rightarrow> {} | Some b \<Rightarrow> b)
                      \<and> v \<notin> Value ` set reserved)))"
proof -
  let ?b = "(case nodeUsed of Some b \<Rightarrow> b | None \<Rightarrow> NewBitmap) \<union> portMarks reserved"
  let ?avail = "IndexesInRange ?b False (to_uint minDynamicPort) (to_uint maxDynamicPort)"
  let ?free = "freePorts nodeUsed minDynamicPort maxDynamicPort reserved"
  have sr: "setReserved (case nodeUsed of Some b \<Rightarrow> b | None \<Rightarrow> NewBitmap) reserved = Inr ?b"
    using setReserved_valid[OF assms(5)] by simp
  note fa = freePorts_alt[OF assms(1-4), of nodeUsed reserved]
  have len: "length ?avail = card ?free" using IndexesInRange_unset(3)[of ?b] fa by simp
  have st: "set ?avail = int ` ?free" using IndexesInRange_unset(1)[of ?b] fa by simp
  have di: "distinct ?avail" by (rule IndexesInRange_unset(2))
  show ?thesis
  proof (cases "int (card ?free) < numDyn")
    case True
    then have "fst (getDynamicPortsPrecise nodeUsed minDynamicPort maxDynamicPort reserved numDyn g)
            = Inl (Err ''dynamic port selection failed'')"
      using sr len by (simp add: getDynamicPortsPrecise_def Let_def)
    with True show ?thesis by simp
  next
    case False
    then have le: "0 + nat numDyn \<le> length ?avail" using len assms(6) by simp
    from swaps_shuffle[OF le, of g] obtain ys g' where
      h: "swaps (nat numDyn) 0 ?avail g = (Inr ys, g')" "set ys = set ?avail" "distinct ys = distinct ?avail"
         "length ys = length ?avail" by blast
    have r: "fst (getDynamicPortsPrecise nodeUsed minDynamicPort maxDynamicPort reserved numDyn g)
               = Inr (take (nat numDyn) ys)"
      using sr len False h(1) assms(6) by (simp add: getDynamicPortsPrecise_def Let_def)
    have l: "int (length (take (nat numDyn) ys)) = numDyn" using le h(4) assms(6) by simp
    have d: "distinct (take (nat numDyn) ys)" using h(3) di by simp
    have m: "\<forall>v \<in> set (take (nat numDyn) ys). minDynamicPort \<le> v \<and> v \<le> maxDynamicPort \<and> validPort v
                      \<and> nat v \<notin> (case nodeUsed of None \<Rightarrow> {} | Some b \<Rightarrow> b)
                      \<and> v \<notin> Value ` set reserved"
    proof
      fix v assume "v \<in> set (take (nat numDyn) ys)"
      then have "v \<in> set ys" by (rule in_set_takeD)
      then have "v \<in> int ` ?free" using h(2) st by simp
      then show "minDynamicPort \<le> v \<and> v \<le> maxDynamicPort \<and> validPort v
                      \<and> nat v \<notin> (case nodeUsed of None \<Rightarrow> {} | Some b \<Rightarrow> b)
                      \<and> v \<notin> Value ` set reserved"
        by (auto simp: freePorts_def validPort_def)
    qed
    have "fst (getDynamicPortsPrecise nodeUsed minDynamicPort maxDynamicPort reserved numDyn g)
            \<noteq> Inl (Err ''dynamic port selection failed'')" using r by simp
    with False r l d m show ?thesis by blast
  qed
qed


theorem precise_fails_iff_too_few_free_witness:
  "fst (getDynamicPortsPrecise (Some {20000}) 20000 20002 [ex_port ''r'' 20001 0] 2 zero_rand)
     = Inl (Err ''dynamic port selection failed'')
   \<and> fst (getDynamicPortsPrecise (Some {20000}) 20000 20002 [ex_port ''r'' 20001 0] 1 zero_rand)
     = Inr [20002]"
proof -
  have h1: "(0::int) \<le> 20000" "int64 20000" "(0::int) \<le> 20002" "int64 20002"
    by (simp_all add: int64_def)
  have h2: "\<forall>p \<in> set [ex_port ''r'' 20001 0]. validPort (Value p)"
    by (simp add: ex_port_def validPort_def MaxValidPort_def)
  have f: "freePorts (Some {20000}) 20000 20002 [ex_port ''r'' 20001 0] = {20002}"
    by (auto simp: freePorts_def ex_port_def MaxValidPort_def)
  note a = precise_fails_iff_too_few_free[OF h1 h2, of 2 "Some {20000}" zero_rand, unfolded f]
  note b = precise_fails_iff_too_few_free[OF h1 h2, of 1 "Some {20000}" zero_rand, unfolded f]
  have "fst (getDynamicPortsPrecise (Some {20000}) 20000 20002 [ex_port ''r'' 20001 0] 2 zero_rand)
     = Inl (Err ''dynamic port selection failed'')"
    using a by simp
  moreover from b obtain ports where
    p: "fst (getDynamicPortsPrecise (Some {20000}) 20000 20002 [ex_port ''r'' 20001 0] 1 zero_rand) = Inr ports"
       "int (length ports) = 1" "\<forall>v \<in> set ports. nat v \<notin> {20000::nat} \<and> v \<notin> Value ` set [ex_port ''r'' 20001 0]
           \<and> 20000 \<le> v \<and> v \<le> 20002"
    by auto
  from p(2) obtain v where v: "ports = [v]" by (cases ports) auto
  with p(3) have "v = 20002" by (auto simp: ex_port_def)
  ultimately show ?thesis using p(1) v by simp
qed

subsection \<open>The stochastic selector\<close>


lemma wrap64_id: "int64 x \<Longrightarrow> wrap64 x = x"
  by (simp add: wrap64_def int64_def)

lemma wrap64_int64: "int64 (wrap64 x)"
  by (simp add: wrap64_def int64_def)

lemma wrap64_high: "2 ^ 63 \<le> x \<Longrightarrow> x < 2 ^ 64 \<Longrightarrow> wrap64 x < 0"
proof -
  assume a: "2 ^ 63 \<le> x" "x < 2 ^ 64"
  have "(x + 2 ^ 63) mod 2 ^ 64 = (x + 2 ^ 63 - 2 ^ 64) mod 2 ^ 64"
    by (metis mod_diff_right_eq mod_self diff_zero)
  also have "\<dots> = x + 2 ^ 63 - 2 ^ 64" using a by simp
  finally show ?thesis using a by (simp add: wrap64_def)
qed

text \<open>The port that one draw gives lies within the bounds, the upper one excluded.\<close>

lemma drawn_port_in_bounds:
  assumes "int64 mn" "int64 mx" "0 \<le> mx"
    and "0 < wrap64 (mx - mn)" "0 \<le> j" "j < wrap64 (mx - mn)"
  shows "wrap64 (mn + j) = mn + j \<and> mn \<le> mn + j \<and> mn + j < mx"
proof -
  have d: "mx - mn < 2 ^ 64" "- (2 ^ 63) \<le> mx - mn" using assms(1-3) by (simp_all add: int64_def)
  have "mx - mn < 2 ^ 63"
  proof (rule ccontr)
    assume "\<not> mx - mn < 2 ^ 63"
    then have "wrap64 (mx - mn) < 0" using wrap64_high d by simp
    with assms(4) show False by simp
  qed
  then have "int64 (mx - mn)" using d by (simp add: int64_def)
  then have w: "wrap64 (mx - mn) = mx - mn" by (rule wrap64_id)
  then have "int64 (mn + j)" using assms by (simp add: int64_def)
  then show ?thesis using w assms wrap64_id by simp
qed


lemma Intn_Inr: "Intn g n = Inr (j, g') \<Longrightarrow> 0 < n \<and> 0 \<le> j \<and> j < n"
  by (auto simp: Intn_def split: if_splits)

lemma PICK_in_bounds:
  "int64 mn \<Longrightarrow> int64 mx \<Longrightarrow> 0 \<le> mx \<Longrightarrow>
   PICK nodeUsed mn mx reserved dynamic attempts g = (Inr p, g') \<Longrightarrow> mn \<le> p \<and> p < mx"
proof (induction nodeUsed mn mx reserved dynamic attempts g rule: PICK.induct)
  case (1 nodeUsed mn mx reserved dynamic attempts g)
  note b = "1.prems"(1-3)
  note r = "1.prems"(4)
  have na: "\<not> attempts + 1 > maxRandPortAttempts"
    using r by (subst (asm) PICK.simps) (auto split: if_splits)
  obtain j g1 where i: "Intn g (wrap64 (mx - mn)) = Inr (j, g1)"
    using r na by (subst (asm) PICK.simps) (auto split: if_splits sum.splits)
  note jb = Intn_Inr[OF i]
  have jb': "0 < wrap64 (mx - mn)" "0 \<le> j" "j < wrap64 (mx - mn)" using jb by simp_all
  from drawn_port_in_bounds[OF b jb']
  have rp: "wrap64 (mn + j) = mn + j" "mn \<le> mn + j" "mn + j < mx" by simp_all
  let ?again = "PICK nodeUsed mn mx reserved dynamic (attempts + 1) g1"
  have "(?again = (Inr p, g')) \<or> (p = mn + j)"
    using r na i rp(1) by (subst (asm) PICK.simps) (auto split: if_splits simp: Let_def)
  then show ?case
  proof
    assume a: "?again = (Inr p, g')"
    have c: "PICK nodeUsed mn mx reserved dynamic attempts g = ?again \<or> True" by simp
    show ?thesis
    proof (cases "nodeUsed \<noteq> None \<and> \<not> in_bitmap (to_uint (wrap64 (mn + j)))")
      case True
      then show ?thesis using r na i by (subst (asm) PICK.simps) (auto simp: Let_def)
    next
      case nb: False
      show ?thesis
      proof (cases "(case nodeUsed of None \<Rightarrow> False | Some b \<Rightarrow> Check b (to_uint (wrap64 (mn + j))))")
        case True
        from "1.IH"(1)[OF na i refl refl nb True b a] show ?thesis .
      next
        case nc: False
        show ?thesis
        proof (cases "isPortReserved reserved (wrap64 (mn + j)) \<or> isPortReserved dynamic (wrap64 (mn + j))")
          case True
          from "1.IH"(2)[OF na i refl refl nb nc True b a] show ?thesis .
        next
          case False
          then have "p = mn + j" using r na i nb nc rp(1)
            by (subst (asm) PICK.simps) (auto simp: Let_def)
          then show ?thesis using rp by simp
        qed
      qed
    qed
  next
    assume "p = mn + j"
    then show ?thesis using rp by simp
  qed
qed

subsection \<open>The bounds of the selected ports\<close>


lemma stochastic_loop_in_bounds:
  "int64 mn \<Longrightarrow> int64 mx \<Longrightarrow> 0 \<le> mx \<Longrightarrow>
   stochastic_loop k nodeUsed mn mx reserved dynamic g = (Inr ports, g') \<Longrightarrow>
   \<forall>v \<in> set dynamic. mn \<le> v \<and> v < mx \<Longrightarrow>
   (\<forall>v \<in> set ports. mn \<le> v \<and> v < mx) \<and> length ports = length dynamic + k"
proof (induction k arbitrary: dynamic g)
  case 0
  then show ?case by simp
next
  case (Suc k)
  obtain r g1 where p: "PICK nodeUsed mn mx reserved dynamic 0 g = (r, g1)"
    by (cases "PICK nodeUsed mn mx reserved dynamic 0 g")
  show ?case
  proof (cases r)
    case (Inl e)
    with Suc.prems(4) p show ?thesis by simp
  next
    case (Inr v)
    from PICK_in_bounds[OF Suc.prems(1-3)] p Inr have vb: "mn \<le> v \<and> v < mx" by simp
    have "stochastic_loop k nodeUsed mn mx reserved (dynamic @ [v]) g1 = (Inr ports, g')"
      using Suc.prems(4) p Inr by simp
    from Suc.IH[OF Suc.prems(1-3) this] vb Suc.prems(5) show ?thesis by simp
  qed
qed

lemma stochastic_in_bounds:
  assumes "int64 mn" "int64 mx" "0 \<le> mx"
    and "getDynamicPortsStochastic nodeUsed mn mx reservedPorts count g = (Inr ports, g')"
  shows "(\<forall>v \<in> set ports. mn \<le> v \<and> v < mx) \<and> length ports = nat count"
  using stochastic_loop_in_bounds[OF assms(1-3), of "nat count" nodeUsed "map Value reservedPorts" "[]" g ports g']
    assms(4)
  by (simp add: getDynamicPortsStochastic_def)

lemma precise_in_bounds:
  assumes "int64 mn" "int64 mx" "0 \<le> mx"
    and "getDynamicPortsPrecise nodeUsed mn mx reserved numDyn g = (Inr ports, g')"
  shows "(\<forall>v \<in> set ports. mn \<le> v \<and> v \<le> mx) \<and> int (length ports) = numDyn"
proof -
  note r = assms(4)
  obtain b where sr: "setReserved (case nodeUsed of Some b \<Rightarrow> b | None \<Rightarrow> NewBitmap) reserved = Inr b"
    using r by (auto simp: getDynamicPortsPrecise_def split: sum.splits)
  let ?avail = "IndexesInRange b False (to_uint mn) (to_uint mx)"
  have nl: "\<not> int (length ?avail) < numDyn"
    using r sr by (auto simp: getDynamicPortsPrecise_def Let_def split: if_splits)
  then have le: "0 + nat numDyn \<le> length ?avail" by simp
  from swaps_shuffle[OF le, of g] obtain ys g1 where
    h: "swaps (nat numDyn) 0 ?avail g = (Inr ys, g1)" "set ys = set ?avail" "length ys = length ?avail"
    by blast
  have nn: "0 \<le> numDyn" and p: "ports = take (nat numDyn) ys"
    using r sr nl h(1) by (auto simp: getDynamicPortsPrecise_def Let_def split: if_splits)
  have "\<forall>v \<in> set ?avail. mn \<le> v \<and> v \<le> mx"
  proof
    fix v assume "v \<in> set ?avail"
    then obtain i where i: "v = int i" "to_uint mn \<le> i" "i \<le> to_uint mx"
      using IndexesInRange_unset(1)[of b "to_uint mn" "to_uint mx"] by auto
    have "to_uint mx = nat mx" using assms(2,3) by (simp add: to_uint_nonneg)
    then have u: "int i \<le> mx" using i(3) assms(3) by simp
    have "mn \<le> int i"
    proof (cases "0 \<le> mn")
      case True
      then have "to_uint mn = nat mn" using assms(1) by (simp add: to_uint_nonneg)
      then show ?thesis using i(2) by simp
    next
      case False
      then show ?thesis by simp
    qed
    then show "mn \<le> v \<and> v \<le> mx" using u i(1) by simp
  qed
  then have "\<forall>v \<in> set ports. mn \<le> v \<and> v \<le> mx"
    using p h(2) by (auto dest: in_set_takeD)
  moreover have "int (length ports) = numDyn" using p h(3) le nn by simp
  ultimately show ?thesis by simp
qed

lemma pickDynamicPorts_in_bounds:
  assumes "int64 mn" "int64 mx" "0 \<le> mx" "0 \<le> count"
    and "pickDynamicPorts used mn mx reserved count g = (Inr ports, g')"
  shows "(\<forall>v \<in> set ports. mn \<le> v \<and> v \<le> mx) \<and> int (length ports) = count"
proof -
  obtain r g1 where s: "getDynamicPortsStochastic used mn mx reserved count g = (r, g1)"
    by (cases "getDynamicPortsStochastic used mn mx reserved count g")
  show ?thesis
  proof (cases r)
    case (Inr ps)
    then have "ports = ps" using assms(5) s by (simp add: pickDynamicPorts_def)
    with stochastic_in_bounds[OF assms(1-3)] s Inr assms(4) show ?thesis by fastforce
  next
    case (Inl e)
    show ?thesis
    proof (cases e)
      case (Panic m)
      with Inl assms(5) s show ?thesis by (simp add: pickDynamicPorts_def)
    next
      case (Err m)
      with Inl assms(5) s have "getDynamicPortsPrecise used mn mx reserved count g1 = (Inr ports, g')"
        by (simp add: pickDynamicPorts_def)
      from precise_in_bounds[OF assms(1-3) this] show ?thesis .
    qed
  qed
qed

subsection \<open>AssignPorts\<close>


lemma keeps_refl [simp]: "keeps idx idx"
  by (simp add: keeps_def)

lemma keeps_trans: "keeps a b \<Longrightarrow> keeps b c \<Longrightarrow> keeps a c"
  unfolding keeps_def by (cases a, cases b, cases c) auto

lemma keeps_getUsedPortsFor: "keeps idx (snd (getUsedPortsFor idx ip))"
  unfolding keeps_def using portsOn_getUsedPortsFor[of idx ip]
  by (auto simp: getUsedPortsFor_def split: option.splits)

lemma keeps_fields:
  assumes "keeps idx idx'"
  shows "hostAddrs idx' = hostAddrs idx" "MinDynamicPort idx' = MinDynamicPort idx"
    "MaxDynamicPort idx' = MaxDynamicPort idx" "portsOn idx' ip = portsOn idx ip"
    "TaskNetworks idx' = TaskNetworks idx"
proof -
  from assms have e: "idx'\<lparr>UsedPorts := UsedPorts idx\<rparr> = idx" and p: "\<forall>ip. portsOn idx' ip = portsOn idx ip"
    by (simp_all add: keeps_def)
  have "HostNetworks idx' = HostNetworks (idx'\<lparr>UsedPorts := UsedPorts idx\<rparr>)" by simp
  then have "HostNetworks idx' = HostNetworks idx" using e by simp
  then show "hostAddrs idx' = hostAddrs idx" by (auto simp: hostAddrs_def)
  have "MinDynamicPort idx' = MinDynamicPort (idx'\<lparr>UsedPorts := UsedPorts idx\<rparr>)" by simp
  then show "MinDynamicPort idx' = MinDynamicPort idx" using e by simp
  have "MaxDynamicPort idx' = MaxDynamicPort (idx'\<lparr>UsedPorts := UsedPorts idx\<rparr>)" by simp
  then show "MaxDynamicPort idx' = MaxDynamicPort idx" using e by simp
  have "TaskNetworks idx' = TaskNetworks (idx'\<lparr>UsedPorts := UsedPorts idx\<rparr>)" by simp
  then show "TaskNetworks idx' = TaskNetworks idx" using e by simp
  show "portsOn idx' ip = portsOn idx ip" using p by simp
qed

text \<open>One round of the loop over the reserved ports.\<close>

lemma AssignPorts_reserved_Cons:
  "AssignPorts_reserved (port # ports) offer ridx idx =
     (case hostAddrs idx (HostNetwork port) of
        [] \<Rightarrow> (Inl (Err (''no addresses available for '' @ HostNetwork port @ '' network'')), idx)
      | addr # _ \<Rightarrow>
          if \<not> validPort (Value port)
          then (Inl (Err (''invalid port '' @ show_int (Value port) @ '' (out of range)'')),
                snd (getUsedPortsFor idx (Address addr)))
          else if Check (portsOn idx (Address addr)) (nat (Value port))
          then (Inl (Err (''reserved port collision '' @ Label port @ ''='' @ show_int (Value port))),
                snd (getUsedPortsFor idx (Address addr)))
          else AssignPorts_reserved ports
                 (offer @ [\<lparr>PortLabel = Label port, PortValue = Value port, PortTo = To port,
                            HostIP = Address addr\<rparr>])
                 (ridx(HostNetwork port := ridx (HostNetwork port) @ [port]))
                 (snd (getUsedPortsFor idx (Address addr))))"
proof (cases "hostAddrs idx (HostNetwork port)")
  case Nil
  then show ?thesis by simp
next
  case (Cons addr rest)
  obtain used idx1 where g: "getUsedPortsFor idx (Address addr) = (used, idx1)"
    by (cases "getUsedPortsFor idx (Address addr)")
  have u: "used = portsOn idx (Address addr)" using getUsedPortsFor_eq[OF g] by simp
  show ?thesis
  proof (cases "validPort (Value port)")
    case True
    then show ?thesis using Cons g u by (simp add: guard_valid to_uint_valid Let_def)
  next
    case False
    then show ?thesis using Cons g u by (simp add: guard_valid Let_def)
  qed
qed

declare AssignPorts_reserved.simps(2) [simp del]

lemma AssignPorts_reserved_keeps: "keeps idx (snd (AssignPorts_reserved ports offer ridx idx))"
proof (induction ports arbitrary: offer ridx idx)
  case Nil
  then show ?case by simp
next
  case (Cons port ports)
  show ?case
  proof (cases "hostAddrs idx (HostNetwork port)")
    case Nil
    then show ?thesis by (simp add: AssignPorts_reserved_Cons)
  next
    case (Cons addr rest)
    note k = keeps_getUsedPortsFor[of idx "Address addr"]
    show ?thesis using Cons k Cons.IH keeps_trans[OF k]
      by (auto simp: AssignPorts_reserved_Cons)
  qed
qed


lemma firstAddrFree_keeps:
  assumes "keeps idx idx'"
  shows "firstAddrFree idx' q = firstAddrFree idx q"
  using keeps_fields(1)[OF assms] keeps_fields(4)[OF assms]
  by (simp add: firstAddrFree_def split: list.splits)

lemma AssignPorts_reserved_Cons_free:
  assumes "firstAddrFree idx port"
  shows "\<exists>addr rest. hostAddrs idx (HostNetwork port) = addr # rest \<and>
     AssignPorts_reserved (port # ports) offer ridx idx =
       AssignPorts_reserved ports
         (offer @ [\<lparr>PortLabel = Label port, PortValue = Value port, PortTo = To port,
                    HostIP = Address addr\<rparr>])
         (ridx(HostNetwork port := ridx (HostNetwork port) @ [port]))
         (snd (getUsedPortsFor idx (Address addr)))"
  using assms by (auto simp: firstAddrFree_def AssignPorts_reserved_Cons split: list.splits)

lemma AssignPorts_reserved_Inr_Cons:
  assumes "AssignPorts_reserved (port # ports) offer ridx idx = (Inr res, idx')"
  shows "firstAddrFree idx port"
  using assms by (auto simp: firstAddrFree_def AssignPorts_reserved_Cons split: list.splits if_splits)

text \<open>The mapping that a reserved port gets: its own label, value and target, on the first address.\<close>

lemma AssignPorts_reserved_Inr:
  "AssignPorts_reserved ports offer ridx idx = (Inr (offer', ridx'), idx') \<Longrightarrow>
   (\<forall>q \<in> set ports. firstAddrFree idx q) \<and>
   (\<exists>new. offer' = offer @ new \<and>
      list_all2 (\<lambda>q m. PortLabel m = Label q \<and> PortValue m = Value q \<and> PortTo m = To q
                   \<and> HostIP m = Address (hd (hostAddrs idx (HostNetwork q)))) ports new)"
proof (induction ports arbitrary: offer ridx idx)
  case Nil
  then show ?case by simp
next
  case (Cons port ports)
  from AssignPorts_reserved_Inr_Cons[OF Cons.prems] have f: "firstAddrFree idx port" .
  from AssignPorts_reserved_Cons_free[OF f, of ports offer ridx] obtain addr rest where
    a: "hostAddrs idx (HostNetwork port) = addr # rest"
    and s: "AssignPorts_reserved (port # ports) offer ridx idx =
       AssignPorts_reserved ports
         (offer @ [\<lparr>PortLabel = Label port, PortValue = Value port, PortTo = To port,
                    HostIP = Address addr\<rparr>])
         (ridx(HostNetwork port := ridx (HostNetwork port) @ [port]))
         (snd (getUsedPortsFor idx (Address addr)))" by blast
  let ?i = "snd (getUsedPortsFor idx (Address addr))"
  let ?m = "\<lparr>PortLabel = Label port, PortValue = Value port, PortTo = To port, HostIP = Address addr\<rparr>"
  note k = keeps_getUsedPortsFor[of idx "Address addr"]
  from Cons.IH[of "offer @ [?m]" _ ?i] Cons.prems s
  obtain new where h: "\<forall>q \<in> set ports. firstAddrFree ?i q" "offer' = (offer @ [?m]) @ new"
    "list_all2 (\<lambda>q m. PortLabel m = Label q \<and> PortValue m = Value q \<and> PortTo m = To q
                   \<and> HostIP m = Address (hd (hostAddrs ?i (HostNetwork q)))) ports new"
    by auto
  have "list_all2 (\<lambda>q m. PortLabel m = Label q \<and> PortValue m = Value q \<and> PortTo m = To q
                   \<and> HostIP m = Address (hd (hostAddrs idx (HostNetwork q)))) (port # ports) (?m # new)"
    using h(3) a by (simp add: keeps_fields(1)[OF k])
  moreover have "offer' = offer @ (?m # new)" using h(2) by simp
  moreover have "\<forall>q \<in> set (port # ports). firstAddrFree idx q"
    using h(1) f by (simp add: firstAddrFree_keeps[OF k])
  ultimately show ?case by blast
qed

text \<open>Reserved ports that are free on their first address are passed; the index keeps its ports.\<close>

lemma AssignPorts_reserved_prefix:
  "\<forall>q \<in> set ps. firstAddrFree idx q \<Longrightarrow>
   \<exists>offer' ridx' idx'. AssignPorts_reserved (ps @ rest) offer ridx idx
        = AssignPorts_reserved rest offer' ridx' idx' \<and> keeps idx idx' \<and> length offer' = length offer + length ps"
proof (induction ps arbitrary: offer ridx idx)
  case Nil
  show ?case by (rule exI[of _ offer], rule exI[of _ ridx], rule exI[of _ idx]) simp
next
  case (Cons port ps)
  then have f: "firstAddrFree idx port" by simp
  from AssignPorts_reserved_Cons_free[OF f, of "ps @ rest" offer ridx] obtain addr others where
    a: "hostAddrs idx (HostNetwork port) = addr # others" and
    s: "AssignPorts_reserved (port # ps @ rest) offer ridx idx =
       AssignPorts_reserved (ps @ rest)
         (offer @ [\<lparr>PortLabel = Label port, PortValue = Value port, PortTo = To port,
                    HostIP = Address addr\<rparr>])
         (ridx(HostNetwork port := ridx (HostNetwork port) @ [port]))
         (snd (getUsedPortsFor idx (Address addr)))" by blast
  let ?i = "snd (getUsedPortsFor idx (Address addr))"
  note k = keeps_getUsedPortsFor[of idx "Address addr"]
  have "\<forall>q \<in> set ps. firstAddrFree ?i q" using Cons.prems by (simp add: firstAddrFree_keeps[OF k])
  from Cons.IH[OF this, of "offer @ [\<lparr>PortLabel = Label port, PortValue = Value port, PortTo = To port,
                    HostIP = Address addr\<rparr>]" "ridx(HostNetwork port := ridx (HostNetwork port) @ [port])"]
  obtain offer' ridx' idx' where h: "AssignPorts_reserved (ps @ rest)
         (offer @ [\<lparr>PortLabel = Label port, PortValue = Value port, PortTo = To port,
                    HostIP = Address addr\<rparr>])
         (ridx(HostNetwork port := ridx (HostNetwork port) @ [port])) ?i
       = AssignPorts_reserved rest offer' ridx' idx'" "keeps ?i idx'"
      "length offer' = length (offer @ [\<lparr>PortLabel = Label port, PortValue = Value port, PortTo = To port,
                    HostIP = Address addr\<rparr>]) + length ps"
    by blast
  have "keeps idx idx'" using keeps_trans[OF k h(2)] .
  moreover have "AssignPorts_reserved ((port # ps) @ rest) offer ridx idx = AssignPorts_reserved rest offer' ridx' idx'"
    using s h(1) by simp
  moreover have "length offer' = length offer + length (port # ps)" using h(3) by simp
  ultimately show ?case by blast
qed


text \<open>One round of the loop over the addresses of a dynamic port.\<close>

lemma AssignPorts_addrs_Cons:
  "AssignPorts_addrs port reserved (addr # addrs) addrErr idx g =
     (case pickDynamicPorts (Some (portsOn idx (Address addr))) (MinDynamicPort idx) (MaxDynamicPort idx)
             reserved 1 g of
        (Inl (Panic s), g') \<Rightarrow> (Inl (Panic s), snd (getUsedPortsFor idx (Address addr)), g')
      | (Inl (Err s), g') \<Rightarrow>
          AssignPorts_addrs port reserved addrs (Some (Err s)) (snd (getUsedPortsFor idx (Address addr))) g'
      | (Inr dynPorts, g') \<Rightarrow>
          (case dynPorts of
             [] \<Rightarrow> (Inl (Panic ''index out of range''), snd (getUsedPortsFor idx (Address addr)), g')
           | v # _ \<Rightarrow>
               (Inr (Some \<lparr>PortLabel = Label port, PortValue = v,
                           PortTo = (if To port = - 1 then v else To port),
                           HostIP = Address addr\<rparr>, None), snd (getUsedPortsFor idx (Address addr)), g')))"
proof -
  obtain used idx1 where g: "getUsedPortsFor idx (Address addr) = (used, idx1)"
    by (cases "getUsedPortsFor idx (Address addr)")
  have u: "used = portsOn idx (Address addr)" using getUsedPortsFor_eq[OF g] by simp
  have s: "snd (getUsedPortsFor idx (Address addr)) = idx1" using g by simp
  show ?thesis unfolding s using g u by simp
qed

declare AssignPorts_addrs.simps(2) [simp del]

lemma AssignPorts_addrs_keeps:
  "keeps idx (fst (snd (AssignPorts_addrs port reserved addrs addrErr idx g)))"
proof (induction addrs arbitrary: addrErr idx g)
  case Nil
  then show ?case by simp
next
  case (Cons addr addrs)
  note k = keeps_getUsedPortsFor[of idx "Address addr"]
  show ?case using k Cons.IH keeps_trans[OF k]
    by (auto simp: AssignPorts_addrs_Cons split: prod.splits sum.splits error.splits list.splits)
qed

lemma AssignPorts_addrs_Some:
  "AssignPorts_addrs port reserved addrs addrErr idx g = (Inr (Some m, e), idx', g') \<Longrightarrow>
   PortLabel m = Label port \<and> PortTo m = (if To port = - 1 then PortValue m else To port) \<and>
   (int64 (MinDynamicPort idx) \<and> int64 (MaxDynamicPort idx) \<and> 0 \<le> MaxDynamicPort idx \<longrightarrow>
      MinDynamicPort idx \<le> PortValue m \<and> PortValue m \<le> MaxDynamicPort idx)"
proof (induction addrs arbitrary: addrErr idx g)
  case Nil
  then show ?case by simp
next
  case (Cons addr addrs)
  let ?i = "snd (getUsedPortsFor idx (Address addr))"
  note k = keeps_getUsedPortsFor[of idx "Address addr"]
  obtain r g1 where p: "pickDynamicPorts (Some (portsOn idx (Address addr))) (MinDynamicPort idx)
      (MaxDynamicPort idx) reserved 1 g = (r, g1)"
    by (cases "pickDynamicPorts (Some (portsOn idx (Address addr))) (MinDynamicPort idx)
      (MaxDynamicPort idx) reserved 1 g")
  show ?case
  proof (cases r)
    case (Inl err)
    show ?thesis
    proof (cases err)
      case (Panic s)
      with Cons.prems p Inl show ?thesis by (simp add: AssignPorts_addrs_Cons)
    next
      case (Err s)
      with Cons.prems p Inl have "AssignPorts_addrs port reserved addrs (Some (Err s)) ?i g1 = (Inr (Some m, e), idx', g')"
        by (simp add: AssignPorts_addrs_Cons)
      from Cons.IH[OF this] show ?thesis by (simp add: keeps_fields(2,3)[OF k])
    qed
  next
    case (Inr dynPorts)
    show ?thesis
    proof (cases dynPorts)
      case Nil
      with Cons.prems p Inr show ?thesis by (simp add: AssignPorts_addrs_Cons)
    next
      case (Cons v vs)
      with Cons.prems p Inr have m: "m = \<lparr>PortLabel = Label port, PortValue = v,
                           PortTo = (if To port = - 1 then v else To port), HostIP = Address addr\<rparr>"
        by (simp add: AssignPorts_addrs_Cons)
      have "int64 (MinDynamicPort idx) \<and> int64 (MaxDynamicPort idx) \<and> 0 \<le> MaxDynamicPort idx \<longrightarrow>
          MinDynamicPort idx \<le> v \<and> v \<le> MaxDynamicPort idx"
        using pickDynamicPorts_in_bounds[of "MinDynamicPort idx" "MaxDynamicPort idx" 1
            "Some (portsOn idx (Address addr))" reserved g dynPorts g1] p Inr Cons by auto
      then show ?thesis using m by simp
    qed
  qed
qed

lemma AssignPorts_dynamic_keeps:
  "keeps idx (fst (snd (AssignPorts_dynamic ports offer ridx idx g)))"
proof (induction ports arbitrary: offer idx g)
  case Nil
  then show ?case by simp
next
  case (Cons port ports)
  obtain r idx1 g1 where a: "AssignPorts_addrs port (ridx (HostNetwork port))
             (hostAddrs idx (HostNetwork port)) None idx g = (r, idx1, g1)"
    by (cases "AssignPorts_addrs port (ridx (HostNetwork port)) (hostAddrs idx (HostNetwork port)) None idx g")
  have k: "keeps idx idx1"
    using AssignPorts_addrs_keeps[of idx port "ridx (HostNetwork port)" "hostAddrs idx (HostNetwork port)" None g] a
    by simp
  show ?case using a k Cons.IH keeps_trans[OF k]
    by (auto split: sum.splits option.splits prod.splits)
qed

text \<open>The mapping that a dynamic port gets.\<close>

lemma AssignPorts_dynamic_Inr:
  "AssignPorts_dynamic ports offer ridx idx g = (Inr offer', idx', g') \<Longrightarrow>
   \<exists>new. offer' = offer @ new \<and>
      list_all2 (\<lambda>q m. PortLabel m = Label q \<and> PortTo m = (if To q = - 1 then PortValue m else To q) \<and>
         (int64 (MinDynamicPort idx) \<and> int64 (MaxDynamicPort idx) \<and> 0 \<le> MaxDynamicPort idx \<longrightarrow>
            MinDynamicPort idx \<le> PortValue m \<and> PortValue m \<le> MaxDynamicPort idx)) ports new"
proof (induction ports arbitrary: offer idx g)
  case Nil
  then show ?case by simp
next
  case (Cons port ports)
  obtain r idx1 g1 where a: "AssignPorts_addrs port (ridx (HostNetwork port))
             (hostAddrs idx (HostNetwork port)) None idx g = (r, idx1, g1)"
    by (cases "AssignPorts_addrs port (ridx (HostNetwork port)) (hostAddrs idx (HostNetwork port)) None idx g")
  have k: "keeps idx idx1"
    using AssignPorts_addrs_keeps[of idx port "ridx (HostNetwork port)" "hostAddrs idx (HostNetwork port)" None g] a
    by simp
  from Cons.prems a obtain m e where r: "r = Inr (Some m, e)"
    and rest: "AssignPorts_dynamic ports (offer @ [m]) ridx idx1 g1 = (Inr offer', idx', g')"
    by (auto split: sum.splits option.splits prod.splits)
  from AssignPorts_addrs_Some[of port _ _ None idx g m e idx1 g1] a r
  have pm: "PortLabel m = Label port \<and> PortTo m = (if To port = - 1 then PortValue m else To port) \<and>
   (int64 (MinDynamicPort idx) \<and> int64 (MaxDynamicPort idx) \<and> 0 \<le> MaxDynamicPort idx \<longrightarrow>
      MinDynamicPort idx \<le> PortValue m \<and> PortValue m \<le> MaxDynamicPort idx)" by simp
  from Cons.IH[OF rest] obtain new where h: "offer' = (offer @ [m]) @ new"
    "list_all2 (\<lambda>q m. PortLabel m = Label q \<and> PortTo m = (if To q = - 1 then PortValue m else To q) \<and>
         (int64 (MinDynamicPort idx1) \<and> int64 (MaxDynamicPort idx1) \<and> 0 \<le> MaxDynamicPort idx1 \<longrightarrow>
            MinDynamicPort idx1 \<le> PortValue m \<and> PortValue m \<le> MaxDynamicPort idx1)) ports new"
    by blast
  have "list_all2 (\<lambda>q m. PortLabel m = Label q \<and> PortTo m = (if To q = - 1 then PortValue m else To q) \<and>
         (int64 (MinDynamicPort idx) \<and> int64 (MaxDynamicPort idx) \<and> 0 \<le> MaxDynamicPort idx \<longrightarrow>
            MinDynamicPort idx \<le> PortValue m \<and> PortValue m \<le> MaxDynamicPort idx)) (port # ports) (m # new)"
    using h(2) pm by (simp add: keeps_fields(2,3)[OF k])
  moreover have "offer' = offer @ (m # new)" using h(1) by simp
  ultimately show ?case by blast
qed


lemma AssignPorts_keeps: "keeps idx (fst (snd (AssignPorts idx ask g)))"
proof -
  obtain r idx1 where a: "AssignPorts_reserved (ReservedPorts ask) [] (\<lambda>alias. []) idx = (r, idx1)"
    by (cases "AssignPorts_reserved (ReservedPorts ask) [] (\<lambda>alias. []) idx")
  have k: "keeps idx idx1" using AssignPorts_reserved_keeps[of idx "ReservedPorts ask" "[]" "\<lambda>alias. []"] a by simp
  show ?thesis
  proof (cases r)
    case (Inl e)
    then show ?thesis using a k by (simp add: AssignPorts_def)
  next
    case (Inr p)
    obtain offer ridx where p: "p = (offer, ridx)" by (cases p)
    show ?thesis using a Inr p keeps_trans[OF k AssignPorts_dynamic_keeps[of idx1 "DynamicPorts ask" offer ridx g]]
      by (simp add: AssignPorts_def)
  qed
qed

text \<open>An offer is the mappings of the reserved ports followed by those of the dynamic ports.\<close>

lemma AssignPorts_Inr:
  assumes "AssignPorts idx ask g = (Inr offer, idx', g')"
  shows "\<exists>res dyn. offer = res @ dyn \<and>
      (\<forall>q \<in> set (ReservedPorts ask). firstAddrFree idx q) \<and>
      list_all2 (\<lambda>q m. PortLabel m = Label q \<and> PortValue m = Value q \<and> PortTo m = To q
                   \<and> HostIP m = Address (hd (hostAddrs idx (HostNetwork q)))) (ReservedPorts ask) res \<and>
      list_all2 (\<lambda>q m. PortLabel m = Label q \<and> PortTo m = (if To q = - 1 then PortValue m else To q) \<and>
         (int64 (MinDynamicPort idx) \<and> int64 (MaxDynamicPort idx) \<and> 0 \<le> MaxDynamicPort idx \<longrightarrow>
            MinDynamicPort idx \<le> PortValue m \<and> PortValue m \<le> MaxDynamicPort idx)) (DynamicPorts ask) dyn"
proof -
  obtain r idx1 where a: "AssignPorts_reserved (ReservedPorts ask) [] (\<lambda>alias. []) idx = (r, idx1)"
    by (cases "AssignPorts_reserved (ReservedPorts ask) [] (\<lambda>alias. []) idx")
  have k: "keeps idx idx1" using AssignPorts_reserved_keeps[of idx "ReservedPorts ask" "[]" "\<lambda>alias. []"] a by simp
  from assms a obtain res ridx where r: "r = Inr (res, ridx)"
    and d: "AssignPorts_dynamic (DynamicPorts ask) res ridx idx1 g = (Inr offer, idx', g')"
    by (auto simp: AssignPorts_def split: sum.splits prod.splits)
  from AssignPorts_reserved_Inr[of "ReservedPorts ask" "[]" _ idx res ridx idx1] a r
  have r1: "\<forall>q \<in> set (ReservedPorts ask). firstAddrFree idx q"
    and r2: "list_all2 (\<lambda>q m. PortLabel m = Label q \<and> PortValue m = Value q \<and> PortTo m = To q
                   \<and> HostIP m = Address (hd (hostAddrs idx (HostNetwork q)))) (ReservedPorts ask) res"
    by auto
  from AssignPorts_dynamic_Inr[OF d] obtain dyn where o: "offer = res @ dyn"
    and d2: "list_all2 (\<lambda>q m. PortLabel m = Label q \<and> PortTo m = (if To q = - 1 then PortValue m else To q) \<and>
         (int64 (MinDynamicPort idx1) \<and> int64 (MaxDynamicPort idx1) \<and> 0 \<le> MaxDynamicPort idx1 \<longrightarrow>
            MinDynamicPort idx1 \<le> PortValue m \<and> PortValue m \<le> MaxDynamicPort idx1)) (DynamicPorts ask) dyn"
    by blast
  from d2 have "list_all2 (\<lambda>q m. PortLabel m = Label q \<and> PortTo m = (if To q = - 1 then PortValue m else To q) \<and>
         (int64 (MinDynamicPort idx) \<and> int64 (MaxDynamicPort idx) \<and> 0 \<le> MaxDynamicPort idx \<longrightarrow>
            MinDynamicPort idx \<le> PortValue m \<and> PortValue m \<le> MaxDynamicPort idx)) (DynamicPorts ask) dyn"
    by (simp add: keeps_fields(2,3)[OF k])
  with o r1 r2 show ?thesis by blast
qed






subsection \<open>AssignTaskNetwork\<close>


lemma stochastic_loop_length:
  "stochastic_loop k nodeUsed mn mx reserved dynamic g = (Inr ports, g') \<Longrightarrow>
   length ports = length dynamic + k"
proof (induction k arbitrary: dynamic g)
  case 0
  then show ?case by simp
next
  case (Suc k)
  obtain r g1 where p: "PICK nodeUsed mn mx reserved dynamic 0 g = (r, g1)"
    by (cases "PICK nodeUsed mn mx reserved dynamic 0 g")
  show ?case
  proof (cases r)
    case (Inl e)
    with Suc.prems p show ?thesis by simp
  next
    case (Inr v)
    have "stochastic_loop k nodeUsed mn mx reserved (dynamic @ [v]) g1 = (Inr ports, g')"
      using Suc.prems p Inr by simp
    from Suc.IH[OF this] show ?thesis by simp
  qed
qed

lemma precise_length:
  assumes "getDynamicPortsPrecise nodeUsed mn mx reserved numDyn g = (Inr ports, g')"
  shows "int (length ports) = numDyn"
proof -
  note r = assms
  obtain b where sr: "setReserved (case nodeUsed of Some b \<Rightarrow> b | None \<Rightarrow> NewBitmap) reserved = Inr b"
    using r by (auto simp: getDynamicPortsPrecise_def split: sum.splits)
  let ?avail = "IndexesInRange b False (to_uint mn) (to_uint mx)"
  have nl: "\<not> int (length ?avail) < numDyn"
    using r sr by (auto simp: getDynamicPortsPrecise_def Let_def split: if_splits)
  then have le: "0 + nat numDyn \<le> length ?avail" by simp
  from swaps_shuffle[OF le, of g] obtain ys g1 where
    h: "swaps (nat numDyn) 0 ?avail g = (Inr ys, g1)" "length ys = length ?avail"
    by blast
  have nn: "0 \<le> numDyn" and p: "ports = take (nat numDyn) ys"
    using r sr nl h(1) by (auto simp: getDynamicPortsPrecise_def Let_def split: if_splits)
  show ?thesis using p h(2) le nn by simp
qed

lemma pickDynamicPorts_length:
  assumes "0 \<le> count" and "pickDynamicPorts used mn mx reserved count g = (Inr ports, g')"
  shows "int (length ports) = count"
proof -
  obtain r g1 where s: "getDynamicPortsStochastic used mn mx reserved count g = (r, g1)"
    by (cases "getDynamicPortsStochastic used mn mx reserved count g")
  show ?thesis
  proof (cases r)
    case (Inr ps)
    then have "ports = ps" using assms(2) s by (simp add: pickDynamicPorts_def)
    with stochastic_loop_length[of "nat count" used mn mx "map Value reserved" "[]" g ps g1] s Inr assms(1)
    show ?thesis by (simp add: getDynamicPortsStochastic_def)
  next
    case (Inl e)
    show ?thesis
    proof (cases e)
      case (Panic m)
      with Inl assms(2) s show ?thesis by (simp add: pickDynamicPorts_def)
    next
      case (Err m)
      with Inl assms(2) s have "getDynamicPortsPrecise used mn mx reserved count g1 = (Inr ports, g')"
        by (simp add: pickDynamicPorts_def)
      from precise_length[OF this] show ?thesis .
    qed
  qed
qed

lemma BUILD_OFFER_Inr:
  "BUILD_OFFER dps vs = Inr out \<Longrightarrow> length vs = length dps \<Longrightarrow>
   list_all2 (\<lambda>d p. Label p = Label d \<and> To p = (if To d = - 1 then Value p else To d)) dps out"
proof (induction dps vs arbitrary: out rule: BUILD_OFFER.induct)
  case (1 dynamicPorts)
  then show ?case by simp
next
  case (2 port dynPorts)
  then show ?case by simp
next
  case (3 d dynamicPorts port dynPorts)
  from "3.prems" obtain rest where r: "BUILD_OFFER dynamicPorts dynPorts = Inr rest"
    and o: "out = d\<lparr>Value := port, To := (if To d = - 1 then port else To d)\<rparr> # rest"
    by (auto split: sum.splits)
  from "3.IH"[OF r] "3.prems"(2) show ?case using o by simp
qed

lemma offerOn_Inr:
  assumes "offerOn lib idx ask n ip g = (Inr offer, g')"
  shows "ReservedPorts offer = ReservedPorts ask \<and>
     list_all2 (\<lambda>d p. Label p = Label d \<and> To p = (if To d = - 1 then Value p else To d))
       (DynamicPorts ask) (DynamicPorts offer)"
proof -
  let ?used = "UsedPorts idx (IPString lib ip)"
  from assms obtain dynPorts g1 dps where
    p: "pickDynamicPorts ?used (MinDynamicPort idx) (MaxDynamicPort idx)
           (ReservedPorts ask) (int (length (DynamicPorts ask))) g = (Inr dynPorts, g1)"
    and b: "BUILD_OFFER (DynamicPorts ask) dynPorts = Inr dps"
    and o: "ReservedPorts offer = ReservedPorts ask" "DynamicPorts offer = dps"
    by (auto simp: offerOn_def Let_def split: if_splits option.splits sum.splits prod.splits)
  have "int (length dynPorts) = int (length (DynamicPorts ask))"
    using pickDynamicPorts_length[OF _ p] by simp
  then have "length dynPorts = length (DynamicPorts ask)" by simp
  from BUILD_OFFER_Inr[OF b this] o show ?thesis by simp
qed

lemma yieldIP_addrs_result:
  assumes "yieldIP_addrs lib idx ask n ipnet ip err g = Some y"
  shows "\<forall>offer e g'. y = (Inl (Some offer, e), g') \<longrightarrow>
      (\<exists>ip0 g0 g1. offerOn lib idx ask n ip0 g0 = (Inr offer, g1))"
  using assms
proof (induct lib idx ask n ipnet ip err g y rule: yieldIP_addrs.raw_induct)
  case (1 f lib idx ask n ipnet ip err g y)
  note IH = 1(1) and eq = 1(2) and whole = 1(3)
  show ?case
  proof (cases "Contains lib ipnet ip")
    case False
    with eq show ?thesis by auto
  next
    case True
    obtain r g1 where p: "offerOn lib idx ask n ip g = (r, g1)" by (cases "offerOn lib idx ask n ip g")
    show ?thesis
    proof (cases r)
      case (Inr off)
      with eq True p have "y = (Inl (Some off, None), g1)" by simp
      with p Inr show ?thesis by blast
    next
      case (Inl er)
      show ?thesis
      proof (cases er)
        case (Panic s)
        with eq True p Inl show ?thesis by auto
      next
        case (Err s)
        with eq True p Inl have a: "f lib idx ask n ipnet (incIP ip) (Some (Err s)) g1 = Some y"
          by simp
        have "yieldIP_addrs lib idx ask n ipnet ip err g
                = yieldIP_addrs lib idx ask n ipnet (incIP ip) (Some (Err s)) g1"
          using True p Inl Err by (subst yieldIP_addrs.simps) simp
        with whole have b: "yieldIP_addrs lib idx ask n ipnet (incIP ip) (Some (Err s)) g1 = Some y"
          by simp
        from IH[OF a b] show ?thesis .
      qed
    qed
  qed
qed (fact assms)

lemma yieldIP_offer:
  "yieldIP lib idx ask ns err g = Some ((Some offer, e), g') \<Longrightarrow>
   \<exists>n ip0 g0 g1. offerOn lib idx ask n ip0 g0 = (Inr offer, g1)"
proof (induction ns arbitrary: err g)
  case Nil
  then show ?case by simp
next
  case (Cons n ns)
  show ?case
  proof (cases "ParseCIDR lib (CIDR n)")
    case None
    with Cons.prems have "yieldIP lib idx ask ns err g = Some ((Some offer, e), g')" by simp
    from Cons.IH[OF this] show ?thesis .
  next
    case (Some pr)
    obtain ip ipnet where pr: "pr = (ip, ipnet)" by (cases pr)
    from Cons.prems Some pr obtain y where
      y: "yieldIP_addrs lib idx ask n ipnet (MaskIP lib ip ipnet) err g = Some y"
      by (auto split: option.splits)
    obtain r g1 where yr: "y = (r, g1)" by (cases y)
    show ?thesis
    proof (cases r)
      case (Inl fin)
      with Cons.prems Some pr y yr have "fin = (Some offer, e)" "g1 = g'" by simp_all
      with yieldIP_addrs_result[OF y] yr Inl show ?thesis by blast
    next
      case (Inr err')
      with Cons.prems Some pr y yr have "yieldIP lib idx ask ns err' g1 = Some ((Some offer, e), g')" by simp
      from Cons.IH[OF this] show ?thesis .
    qed
  qed
qed

lemma yieldIP_no_CIDR:
  "\<forall>n \<in> set ns. ParseCIDR lib (CIDR n) = None \<Longrightarrow> yieldIP lib idx ask ns err g = Some ((None, err), g)"
  by (induction ns) simp_all

subsection \<open>Evaluation of the offer engines\<close>

lemmas assign_eval_defs = AssignPorts_def AssignPorts_reserved.simps AssignPorts_dynamic.simps
  AssignPorts_addrs.simps pickDynamicPorts_def getDynamicPortsStochastic_def stochastic_loop.simps
  PICK.simps Intn_def zero_rand_def maxRandPortAttempts_def isPortReserved.simps in_bitmap_def
  getDynamicPortsPrecise_def setReserved.simps IndexesInRange_def swaps.simps upt_rec hostAddrs_def

lemma ex_offer:
  "AssignPorts ex_idx ex_ask zero_rand =
     (Inr [\<lparr>PortLabel = ''r'', PortValue = 20001, PortTo = 0, HostIP = ''10.0.0.1''\<rparr>,
           \<lparr>PortLabel = ''x'', PortValue = 20002, PortTo = 20002, HostIP = ''10.0.0.1''\<rparr>],
      ex_idx, zero_rand)"
  by (simp add: ex_defs assign_eval_defs eval_defs)




subsection \<open>AssignPorts does not mark ports\<close>

text \<open>
  C1: \<^verbatim>\<open>AssignPorts\<close> leaves the used ports as they are, whether it returns an offer, an
  error or panics: the index after the call differs from the one before at most in the map
  of the bitmaps, and for every address and every port the port is marked after the call iff
  it was marked before it (an address without a bitmap has no port marked; the call may
  give such an address a bitmap without a bit set).
\<close>

theorem AssignPorts_leaves_used_ports:
  "keeps idx (fst (snd (AssignPorts idx ask g))) \<and>
   (\<forall>x p. Check (portsOn (fst (snd (AssignPorts idx ask g))) x) p = Check (portsOn idx x) p)"
  using AssignPorts_keeps[of idx ask g] by (simp add: keeps_def)

theorem AssignPorts_leaves_used_ports_witness:
  "Check (portsOn (fst (snd (AssignPorts ex_idx ex_ask zero_rand))) ''10.0.0.1'') 20000
   \<and> \<not> Check (portsOn (fst (snd (AssignPorts ex_idx ex_ask zero_rand))) ''10.0.0.1'') 20002"
proof -
  have a: "Check (portsOn ex_idx ''10.0.0.1'') 20000" "\<not> Check (portsOn ex_idx ''10.0.0.1'') 20002"
    by (simp_all add: ex_idx_def portsOn_def Check_def)
  from AssignPorts_leaves_used_ports[of ex_idx ex_ask zero_rand] a show ?thesis by simp
qed

subsection \<open>The bounds of a dynamic port\<close>




subsection \<open>Reserved ports look at the first address only\<close>

text \<open>
  C8: let the reserved ports before \<open>port\<close> in the ask be free on the first address of their
  networks, so that the loop reaches \<open>port\<close>. If the network of \<open>port\<close> has no address, the
  call fails with \<^verbatim>\<open>no addresses available for <alias> network\<close>. If it has addresses and
  the (valid) value is in use on the first one, the call fails with
  \<^verbatim>\<open>reserved port collision label=value\<close>, whatever the other addresses are; and in an
  offer the mapping of \<open>port\<close> is on the first address.
\<close>

theorem reserved_port_first_address_only:
  assumes "ReservedPorts ask = ps @ port # rest" and "\<forall>q \<in> set ps. firstAddrFree idx q"
  shows "(hostAddrs idx (HostNetwork port) = [] \<longrightarrow>
            fst (AssignPorts idx ask g)
              = Inl (Err (''no addresses available for '' @ HostNetwork port @ '' network'')))
       \<and> (\<forall>addr others. hostAddrs idx (HostNetwork port) = addr # others \<and> validPort (Value port)
              \<and> Check (portsOn idx (Address addr)) (nat (Value port)) \<longrightarrow>
            fst (AssignPorts idx ask g)
              = Inl (Err (''reserved port collision '' @ Label port @ ''='' @ show_int (Value port))))
       \<and> (\<forall>addr others offer. hostAddrs idx (HostNetwork port) = addr # others
              \<and> fst (AssignPorts idx ask g) = Inr offer \<longrightarrow>
            length ps < length offer \<and> HostIP (offer ! length ps) = Address addr)"
proof -
  from AssignPorts_reserved_prefix[OF assms(2), of "port # rest" "[]" "\<lambda>alias. []"]
  obtain offer1 ridx1 idx1 where p: "AssignPorts_reserved (ps @ port # rest) [] (\<lambda>alias. []) idx
        = AssignPorts_reserved (port # rest) offer1 ridx1 idx1" and k: "keeps idx idx1"
    by blast
  note kf = keeps_fields(1)[OF k] keeps_fields(4)[OF k]
  have a: "fst (AssignPorts idx ask g) = Inl (Err (''no addresses available for '' @ HostNetwork port @ '' network''))"
    if "hostAddrs idx (HostNetwork port) = []"
    using that p assms(1) kf by (simp add: AssignPorts_def AssignPorts_reserved_Cons)
  have b: "fst (AssignPorts idx ask g)
              = Inl (Err (''reserved port collision '' @ Label port @ ''='' @ show_int (Value port)))"
    if "hostAddrs idx (HostNetwork port) = addr # others" "validPort (Value port)"
       "Check (portsOn idx (Address addr)) (nat (Value port))" for addr others
    using that p assms(1) kf by (simp add: AssignPorts_def AssignPorts_reserved_Cons)
  have c: "length ps < length offer \<and> HostIP (offer ! length ps) = Address addr"
    if h: "hostAddrs idx (HostNetwork port) = addr # others" "fst (AssignPorts idx ask g) = Inr offer"
    for addr others offer
  proof -
    obtain idx' g' where "AssignPorts idx ask g = (Inr offer, idx', g')"
      using h(2) by (cases "AssignPorts idx ask g") auto
    from AssignPorts_Inr[OF this] obtain res dyn where o: "offer = res @ dyn"
      and r: "list_all2 (\<lambda>q m. PortLabel m = Label q \<and> PortValue m = Value q \<and> PortTo m = To q
                   \<and> HostIP m = Address (hd (hostAddrs idx (HostNetwork q)))) (ReservedPorts ask) res"
      by blast
    have l: "length ps < length res" using list_all2_lengthD[OF r] assms(1) by simp
    have "(ReservedPorts ask) ! length ps = port" using assms(1) by simp
    with list_all2_nthD2[OF r l] h(1) have "HostIP (res ! length ps) = Address addr" by simp
    then show ?thesis using o l by (simp add: nth_append)
  qed
  show ?thesis using a b c by blast
qed

theorem reserved_port_first_address_only_witness:
  "fst (AssignPorts ex_idx (ex_net [ex_port ''r'' 20001 0, ex_port ''c'' 20000 0] []) zero_rand)
     = Inl (Err ''reserved port collision c=20000'')
   \<and> \<not> Check (portsOn ex_idx ''10.0.0.2'') 20000
   \<and> fst (AssignPorts ex_idx
             (ex_net [\<lparr>Label = ''g'', Value = 1, To = 0, HostNetwork = ''ghost''\<rparr>] []) zero_rand)
     = Inl (Err ''no addresses available for ghost network'')
   \<and> HostIP ([\<lparr>PortLabel = ''r'', PortValue = 20001, PortTo = 0, HostIP = ''10.0.0.1''\<rparr>,
                \<lparr>PortLabel = ''x'', PortValue = 20002, PortTo = 20002, HostIP = ''10.0.0.1''\<rparr>] ! 0)
       = ''10.0.0.1''"
proof -
  let ?ask = "ex_net [ex_port ''r'' 20001 0, ex_port ''c'' 20000 0] []"
  let ?ghost = "ex_net [\<lparr>Label = ''g'', Value = 1, To = 0, HostNetwork = ''ghost''\<rparr>] []"
  have h1: "ReservedPorts ?ask = [ex_port ''r'' 20001 0] @ ex_port ''c'' 20000 0 # []"
    by (simp add: ex_defs)
  have h2: "\<forall>q \<in> set [ex_port ''r'' 20001 0]. firstAddrFree ex_idx q"
    by (simp add: firstAddrFree_def ex_defs hostAddrs_def validPort_def MaxValidPort_def portsOn_def Check_def)
  have a: "hostAddrs ex_idx (HostNetwork (ex_port ''c'' 20000 0)) = ex_addr ''10.0.0.1'' # [ex_addr ''10.0.0.2'']"
    by (simp add: ex_idx_def ex_port_def hostAddrs_def)
  have v: "validPort (Value (ex_port ''c'' 20000 0))"
    by (simp add: ex_port_def validPort_def MaxValidPort_def)
  have c: "Check (portsOn ex_idx (Address (ex_addr ''10.0.0.1''))) (nat (Value (ex_port ''c'' 20000 0)))"
    by (simp add: ex_idx_def ex_port_def ex_addr_def portsOn_def Check_def)
  have s: "show_int (Value (ex_port ''c'' 20000 0)) = ''20000''"
    by (simp add: ex_port_def show_int_def show_nat.simps digit_char_def)
  from reserved_port_first_address_only[OF h1 h2, of zero_rand] a v c
  have r1: "fst (AssignPorts ex_idx ?ask zero_rand)
              = Inl (Err (''reserved port collision '' @ Label (ex_port ''c'' 20000 0) @ ''=''
                    @ show_int (Value (ex_port ''c'' 20000 0))))"
    by blast
  have g1: "ReservedPorts ?ghost = [] @ \<lparr>Label = ''g'', Value = 1, To = 0, HostNetwork = ''ghost''\<rparr> # []"
    by (simp add: ex_defs)
  have g2: "\<forall>q \<in> set []. firstAddrFree ex_idx q" by simp
  have g3: "hostAddrs ex_idx (HostNetwork \<lparr>Label = ''g'', Value = 1, To = 0, HostNetwork = ''ghost''\<rparr>) = []"
    by (simp add: ex_idx_def hostAddrs_def)
  from reserved_port_first_address_only[OF g1 g2, of zero_rand] g3
  have r2: "fst (AssignPorts ex_idx ?ghost zero_rand)
              = Inl (Err (''no addresses available for ''
                   @ HostNetwork \<lparr>Label = ''g'', Value = 1, To = 0, HostNetwork = ''ghost''\<rparr> @ '' network''))"
    by blast
  have f: "\<not> Check (portsOn ex_idx ''10.0.0.2'') 20000"
    by (simp add: ex_idx_def portsOn_def Check_def)
  have o1: "ReservedPorts ex_ask = [] @ ex_port ''r'' 20001 0 # []" by (simp add: ex_defs)
  have o2: "hostAddrs ex_idx (HostNetwork (ex_port ''r'' 20001 0)) = ex_addr ''10.0.0.1'' # [ex_addr ''10.0.0.2'']"
    by (simp add: ex_idx_def ex_port_def hostAddrs_def)
  have o3: "fst (AssignPorts ex_idx ex_ask zero_rand)
     = Inr [\<lparr>PortLabel = ''r'', PortValue = 20001, PortTo = 0, HostIP = ''10.0.0.1''\<rparr>,
            \<lparr>PortLabel = ''x'', PortValue = 20002, PortTo = 20002, HostIP = ''10.0.0.1''\<rparr>]"
    by (simp add: ex_offer)
  from reserved_port_first_address_only[OF o1 g2, of zero_rand] o2 o3
  have r3: "HostIP ([\<lparr>PortLabel = ''r'', PortValue = 20001, PortTo = 0, HostIP = ''10.0.0.1''\<rparr>,
                \<lparr>PortLabel = ''x'', PortValue = 20002, PortTo = 20002, HostIP = ''10.0.0.1''\<rparr>] ! length ([]::Port list))
       = Address (ex_addr ''10.0.0.1'')"
    by blast
  show ?thesis using r1 r2 r3 f s by (simp add: ex_port_def ex_addr_def)
qed

subsection \<open>The target of a port mapping\<close>

lemmas task_eval_defs = AssignTaskNetwork_def yieldIP.simps yieldIP_addrs.simps offerOn_def
  checkReserved.simps BUILD_OFFER.simps incIP_def incOctets.simps join_dots.simps show_nat.simps
  digit_char_def

lemma ex_task_offer:
  "AssignTaskNetwork ex_lib ex_task_idx (ex_net [ex_port ''http'' 80 (- 1)] [ex_port ''x'' 0 (- 1)]) zero_rand =
     Some ((Some \<lparr>Mode = ''host'', Device = ''eth0'', CIDR = [], IP = ''10.0.0.0'', MBits = 10, DNS = None,
                   ReservedPorts = [ex_port ''http'' 80 (- 1)],
                   DynamicPorts = [ex_port ''x'' 20000 20000]\<rparr>, None), zero_rand)"
  by (simp add: ex_defs task_eval_defs assign_eval_defs eval_defs)

text \<open>
  C3, as the claim states it, fails for a reserved port: its mapping takes the target of
  the ask as it is, so a target \<open>-1\<close> stays \<open>-1\<close> while the value is the reserved one.
\<close>

theorem reserved_port_keeps_target:
  "fst (AssignPorts ex_idx (ex_net [ex_port ''http'' 80 (- 1)] []) zero_rand)
     = Inr [\<lparr>PortLabel = ''http'', PortValue = 80, PortTo = - 1, HostIP = ''10.0.0.1''\<rparr>]
   \<and> To (ex_port ''http'' 80 (- 1)) = - 1
   \<and> PortTo \<lparr>PortLabel = ''http'', PortValue = 80, PortTo = - 1, HostIP = ''10.0.0.1''\<rparr>
       \<noteq> PortValue \<lparr>PortLabel = ''http'', PortValue = 80, PortTo = - 1, HostIP = ''10.0.0.1''\<rparr>"
  by (simp add: ex_defs assign_eval_defs eval_defs validPort_def)

text \<open>
  C3, amended: in an offer of \<^verbatim>\<open>AssignPorts\<close> the mappings of the reserved ports come
  first, each with the value and the target of its port unchanged, and then those of the
  dynamic ports; the mapping of a dynamic port whose target is \<open>-1\<close> has its target equal to
  its value. In an offer of \<^verbatim>\<open>AssignTaskNetwork\<close> the reserved ports are those of the ask,
  unchanged, and a dynamic port whose target was \<open>-1\<close> has its target equal to its value.
\<close>

theorem target_follows_value_for_dynamic_ports:
  "(AssignPorts idx ask g = (Inr offer, idx', g') \<longrightarrow>
      length offer = length (ReservedPorts ask) + length (DynamicPorts ask)
      \<and> (\<forall>i < length (DynamicPorts ask). To (DynamicPorts ask ! i) = - 1 \<longrightarrow>
            PortTo (offer ! (length (ReservedPorts ask) + i))
              = PortValue (offer ! (length (ReservedPorts ask) + i)))
      \<and> (\<forall>i < length (ReservedPorts ask).
            PortValue (offer ! i) = Value (ReservedPorts ask ! i)
            \<and> PortTo (offer ! i) = To (ReservedPorts ask ! i)))
   \<and> (AssignTaskNetwork lib idx ask g = Some ((Some out, err), g'') \<longrightarrow>
      ReservedPorts out = ReservedPorts ask
      \<and> length (DynamicPorts out) = length (DynamicPorts ask)
      \<and> (\<forall>i < length (DynamicPorts ask). To (DynamicPorts ask ! i) = - 1 \<longrightarrow>
            To (DynamicPorts out ! i) = Value (DynamicPorts out ! i)))"
proof (intro conjI impI)
  assume a: "AssignPorts idx ask g = (Inr offer, idx', g')"
  from AssignPorts_Inr[OF a] obtain res dyn where o: "offer = res @ dyn"
    and r: "list_all2 (\<lambda>q m. PortLabel m = Label q \<and> PortValue m = Value q \<and> PortTo m = To q
                   \<and> HostIP m = Address (hd (hostAddrs idx (HostNetwork q)))) (ReservedPorts ask) res"
    and d: "list_all2 (\<lambda>q m. PortLabel m = Label q \<and> PortTo m = (if To q = - 1 then PortValue m else To q) \<and>
         (int64 (MinDynamicPort idx) \<and> int64 (MaxDynamicPort idx) \<and> 0 \<le> MaxDynamicPort idx \<longrightarrow>
            MinDynamicPort idx \<le> PortValue m \<and> PortValue m \<le> MaxDynamicPort idx)) (DynamicPorts ask) dyn"
    by blast
  note lr = list_all2_lengthD[OF r] and ld = list_all2_lengthD[OF d]
  show "length offer = length (ReservedPorts ask) + length (DynamicPorts ask)"
    using o lr ld by simp
  show "\<forall>i < length (DynamicPorts ask). To (DynamicPorts ask ! i) = - 1 \<longrightarrow>
            PortTo (offer ! (length (ReservedPorts ask) + i))
              = PortValue (offer ! (length (ReservedPorts ask) + i))"
  proof (intro allI impI)
    fix i assume i: "i < length (DynamicPorts ask)" "To (DynamicPorts ask ! i) = - 1"
    from list_all2_nthD[OF d i(1)] i(2) have "PortTo (dyn ! i) = PortValue (dyn ! i)" by simp
    then show "PortTo (offer ! (length (ReservedPorts ask) + i))
              = PortValue (offer ! (length (ReservedPorts ask) + i))"
      using o lr by (simp add: nth_append)
  qed
  show "\<forall>i < length (ReservedPorts ask).
            PortValue (offer ! i) = Value (ReservedPorts ask ! i)
            \<and> PortTo (offer ! i) = To (ReservedPorts ask ! i)"
  proof (intro allI impI)
    fix i assume i: "i < length (ReservedPorts ask)"
    from list_all2_nthD[OF r i] have "PortValue (res ! i) = Value (ReservedPorts ask ! i)
            \<and> PortTo (res ! i) = To (ReservedPorts ask ! i)" by simp
    then show "PortValue (offer ! i) = Value (ReservedPorts ask ! i)
            \<and> PortTo (offer ! i) = To (ReservedPorts ask ! i)"
      using o lr i by (simp add: nth_append)
  qed
next
  assume a: "AssignTaskNetwork lib idx ask g = Some ((Some out, err), g'')"
  have y: "yieldIP lib idx ask (TaskNetworks idx) (Some (Err ''no networks available'')) g
             = Some ((Some out, err), g'')"
    using a by (simp add: AssignTaskNetwork_def)
  from yieldIP_offer[OF y]
  obtain n ip0 g0 g1 where "offerOn lib idx ask n ip0 g0 = (Inr out, g1)"
    by blast
  from offerOn_Inr[OF this] have r: "ReservedPorts out = ReservedPorts ask"
    and d: "list_all2 (\<lambda>d p. Label p = Label d \<and> To p = (if To d = - 1 then Value p else To d))
       (DynamicPorts ask) (DynamicPorts out)" by simp_all
  show "ReservedPorts out = ReservedPorts ask" by (rule r)
  show "length (DynamicPorts out) = length (DynamicPorts ask)" using list_all2_lengthD[OF d] by simp
  show "\<forall>i < length (DynamicPorts ask). To (DynamicPorts ask ! i) = - 1 \<longrightarrow>
            To (DynamicPorts out ! i) = Value (DynamicPorts out ! i)"
    using list_all2_nthD[OF d] by simp
qed

theorem target_follows_value_for_dynamic_ports_witness:
  "PortTo \<lparr>PortLabel = ''x'', PortValue = 20002, PortTo = 20002, HostIP = ''10.0.0.1''\<rparr>
     = PortValue \<lparr>PortLabel = ''x'', PortValue = 20002, PortTo = 20002, HostIP = ''10.0.0.1''\<rparr>
   \<and> PortTo \<lparr>PortLabel = ''r'', PortValue = 20001, PortTo = 0, HostIP = ''10.0.0.1''\<rparr> = To (ex_port ''r'' 20001 0)
   \<and> To (ex_port ''x'' 20000 20000) = Value (ex_port ''x'' 20000 20000)"
proof -
  let ?offer = "[\<lparr>PortLabel = ''r'', PortValue = 20001, PortTo = 0, HostIP = ''10.0.0.1''\<rparr>,
           \<lparr>PortLabel = ''x'', PortValue = 20002, PortTo = 20002, HostIP = ''10.0.0.1''\<rparr>]"
  let ?task_ask = "ex_net [ex_port ''http'' 80 (- 1)] [ex_port ''x'' 0 (- 1)]"
  let ?out = "\<lparr>Mode = ''host'', Device = ''eth0'', CIDR = [], IP = ''10.0.0.0'', MBits = 10, DNS = None,
                   ReservedPorts = [ex_port ''http'' 80 (- 1)],
                   DynamicPorts = [ex_port ''x'' 20000 20000]\<rparr>"
  have l: "length (ReservedPorts ex_ask) = 1" "length (DynamicPorts ex_ask) = 1"
    "To (DynamicPorts ex_ask ! 0) = - 1" "ReservedPorts ex_ask ! 0 = ex_port ''r'' 20001 0"
    by (simp_all add: ex_defs)
  from target_follows_value_for_dynamic_ports[of ex_idx ex_ask zero_rand ?offer ex_idx zero_rand]
    ex_offer l
  have a: "PortTo (?offer ! (1 + 0)) = PortValue (?offer ! (1 + 0))"
    and b: "PortTo (?offer ! 0) = To (ex_port ''r'' 20001 0)"
    by auto
  have t: "length (DynamicPorts ?task_ask) = 1" "To (DynamicPorts ?task_ask ! 0) = - 1"
    by (simp_all add: ex_defs)
  from target_follows_value_for_dynamic_ports[of ex_task_idx ?task_ask zero_rand _ _ _ ex_lib ?out None zero_rand]
    ex_task_offer t
  have c: "To (DynamicPorts ?out ! 0) = Value (DynamicPorts ?out ! 0)" by auto
  show ?thesis using a b c by simp
qed

subsection \<open>No task network to offer\<close>

text \<open>
  C9: when no task network of the index has a CIDR that parses (as when there is no task
  network at all), \<^verbatim>\<open>AssignTaskNetwork\<close> returns, for every ask, with no offer and the error
  \<^verbatim>\<open>no networks available\<close>.
\<close>

theorem no_networks_available:
  assumes "\<forall>n \<in> set (TaskNetworks idx). ParseCIDR lib (CIDR n) = None"
  shows "AssignTaskNetwork lib idx ask g = Some ((None, Some (Err ''no networks available'')), g)"
  using yieldIP_no_CIDR[OF assms] by (simp add: AssignTaskNetwork_def)

theorem no_networks_available_witness:
  "AssignTaskNetwork ex_lib (ex_task_idx\<lparr>TaskNetworks := [ex_net [] [] \<lparr>CIDR := ''unknown''\<rparr>]\<rparr>) ex_ask zero_rand
     = Some ((None, Some (Err ''no networks available'')), zero_rand)
   \<and> AssignTaskNetwork ex_lib NewNetworkIndex ex_ask zero_rand
     = Some ((None, Some (Err ''no networks available'')), zero_rand)"
proof -
  have a: "\<forall>n \<in> set (TaskNetworks (ex_task_idx\<lparr>TaskNetworks := [ex_net [] [] \<lparr>CIDR := ''unknown''\<rparr>]\<rparr>)).
             ParseCIDR ex_lib (CIDR n) = None"
    by (simp add: ex_defs)
  have b: "\<forall>n \<in> set (TaskNetworks NewNetworkIndex). ParseCIDR ex_lib (CIDR n) = None"
    by (simp add: NewNetworkIndex_def)
  from no_networks_available[OF a, of ex_ask zero_rand] no_networks_available[OF b, of ex_ask zero_rand]
  show ?thesis by simp
qed

subsection \<open>SetNode\<close>


lemma same_ports_refl [simp]: "same_ports a a"
  by (simp add: same_ports_def)

lemma same_ports_getUsedPortsFor:
  "same_ports a b \<Longrightarrow> same_ports (snd (getUsedPortsFor a ip)) (snd (getUsedPortsFor b ip))"
  by (simp add: same_ports_def)

lemma same_ports_setUsed: "same_ports a b \<Longrightarrow> same_ports (setUsed a ip p) (setUsed b ip p)"
  by (simp add: same_ports_def)

lemma portsOn_other_fields [simp]:
  "portsOn (idx\<lparr>TaskNetworks := tn\<rparr>) = portsOn idx"
  "portsOn (idx\<lparr>AvailBandwidth := ab\<rparr>) = portsOn idx"
  "portsOn (idx\<lparr>HostNetworks := hn\<rparr>) = portsOn idx"
  "portsOn (idx\<lparr>MinDynamicPort := mn\<rparr>) = portsOn idx"
  "portsOn (idx\<lparr>MaxDynamicPort := mx\<rparr>) = portsOn idx"
  "portsOn (idx\<lparr>UsedBandwidth := ub\<rparr>) = portsOn idx"
  by (simp_all add: portsOn_def fun_eq_iff)

lemma same_ports_other_fields:
  assumes "same_ports a b"
  shows "same_ports (a\<lparr>TaskNetworks := tn\<rparr>) (b\<lparr>TaskNetworks := tn'\<rparr>)"
    "same_ports (a\<lparr>AvailBandwidth := ab\<rparr>) (b\<lparr>AvailBandwidth := ab'\<rparr>)"
    "same_ports (a\<lparr>HostNetworks := hn\<rparr>) (b\<lparr>HostNetworks := hn'\<rparr>)"
    "same_ports (a\<lparr>MinDynamicPort := mn\<rparr>) (b\<lparr>MinDynamicPort := mn'\<rparr>)"
    "same_ports (a\<lparr>MaxDynamicPort := mx\<rparr>) (b\<lparr>MaxDynamicPort := mx'\<rparr>)"
    "same_ports (a\<lparr>UsedBandwidth := ub\<rparr>) (b\<lparr>UsedBandwidth := ub'\<rparr>)"
    "same_ports (a\<lparr>MinDynamicPort := mn\<rparr>) b" "same_ports a (b\<lparr>MinDynamicPort := mn'\<rparr>)"
    "same_ports (a\<lparr>MaxDynamicPort := mx\<rparr>) b" "same_ports a (b\<lparr>MaxDynamicPort := mx'\<rparr>)"
    "same_ports (a\<lparr>UsedBandwidth := ub\<rparr>) b" "same_ports a (b\<lparr>UsedBandwidth := ub'\<rparr>)"
  using assms by (simp_all add: same_ports_def)

lemma setPorts_same:
  "same_ports a b \<Longrightarrow>
   snd (setPorts ip ps a) = snd (setPorts ip ps b) \<and> same_ports (fst (setPorts ip ps a)) (fst (setPorts ip ps b))"
proof (induction ps arbitrary: a b)
  case Nil
  then show ?case by simp
next
  case (Cons p ps)
  show ?case using Cons.IH[OF same_ports_setUsed[OF Cons.prems, of ip p]] Cons.prems by simp
qed

lemma SetNode_reservedPorts_same:
  "same_ports a b \<Longrightarrow>
   snd (SetNode_reservedPorts ip ps (gl, a)) = snd (SetNode_reservedPorts ip ps (gl, b))
   \<and> fst (fst (SetNode_reservedPorts ip ps (gl, a))) = fst (fst (SetNode_reservedPorts ip ps (gl, b)))
   \<and> same_ports (snd (fst (SetNode_reservedPorts ip ps (gl, a)))) (snd (fst (SetNode_reservedPorts ip ps (gl, b))))"
proof (induction ps arbitrary: gl a b)
  case Nil
  then show ?case by simp
next
  case (Cons p ps)
  show ?case
    using Cons.IH[OF same_ports_setUsed[OF Cons.prems, of ip "to_uint (Value p)"], of "gl @ [to_uint (Value p)]"]
      Cons.prems by simp
qed


lemma SetNode_reserved_Cons:
  "SetNode_reserved (n # ns) (gl, idx) =
     (case SetNode_reservedPorts (IP n) (ReservedPorts n @ DynamicPorts n)
             (gl, snd (getUsedPortsFor idx (IP n))) of
        (st, Some e) \<Rightarrow> (st, Some e)
      | ((gl2, idx2), None) \<Rightarrow>
          SetNode_reserved ns
            (gl2,
             if Device n \<noteq> []
             then idx2\<lparr>UsedBandwidth := (UsedBandwidth idx2)
                         (Device n \<mapsto> wrap64 (bandwidth (UsedBandwidth idx2) (Device n) + MBits n))\<rparr>
             else idx2))"
  by (cases "getUsedPortsFor idx (IP n)") simp

declare SetNode_reserved.simps(2) [simp del]

lemma SetNode_reserved_same:
  "same_ports a b \<Longrightarrow>
   snd (SetNode_reserved ns (gl, a)) = snd (SetNode_reserved ns (gl, b))
   \<and> fst (fst (SetNode_reserved ns (gl, a))) = fst (fst (SetNode_reserved ns (gl, b)))
   \<and> same_ports (snd (fst (SetNode_reserved ns (gl, a)))) (snd (fst (SetNode_reserved ns (gl, b))))"
proof (induction ns arbitrary: gl a b)
  case Nil
  then show ?case by simp
next
  case (Cons n ns)
  let ?ps = "ReservedPorts n @ DynamicPorts n"
  let ?a0 = "snd (getUsedPortsFor a (IP n))" and ?b0 = "snd (getUsedPortsFor b (IP n))"
  obtain ga a1 ea where ra: "SetNode_reservedPorts (IP n) ?ps (gl, ?a0) = ((ga, a1), ea)"
    by (cases "SetNode_reservedPorts (IP n) ?ps (gl, ?a0)") auto
  obtain gb b1 eb where rb: "SetNode_reservedPorts (IP n) ?ps (gl, ?b0) = ((gb, b1), eb)"
    by (cases "SetNode_reservedPorts (IP n) ?ps (gl, ?b0)") auto
  from SetNode_reservedPorts_same[OF same_ports_getUsedPortsFor[OF Cons.prems, of "IP n"], of "IP n" ?ps gl] ra rb
  have e: "ea = eb" "ga = gb" and sp: "same_ports a1 b1" by simp_all
  show ?case
  proof (cases ea)
    case (Some er)
    then show ?thesis using ra rb e sp by (simp add: SetNode_reserved_Cons)
  next
    case None
    let ?bw = "\<lambda>i. if Device n \<noteq> []
             then i\<lparr>UsedBandwidth := (UsedBandwidth i)
                         (Device n \<mapsto> wrap64 (bandwidth (UsedBandwidth i) (Device n) + MBits n))\<rparr>
             else i"
    have "same_ports (?bw a1) (?bw b1)" using sp by (simp add: same_ports_def)
    from Cons.IH[OF this, of gb] show ?thesis using ra rb e None by (simp add: SetNode_reserved_Cons)
  qed
qed

lemma SetNode_global_same:
  assumes "same_ports a b"
  shows "snd (SetNode_global parse a node) = snd (SetNode_global parse b node)
   \<and> fst (fst (SetNode_global parse a node)) = fst (fst (SetNode_global parse b node))
   \<and> same_ports (snd (fst (SetNode_global parse a node))) (snd (fst (SetNode_global parse b node)))"
  using assms SetNode_reserved_same[OF assms, of _ "[]"]
  by (auto simp: SetNode_global_def Let_def split: sum.splits option.splits)

lemma SetNode_taskNetworks_Cons:
  "SetNode_taskNetworks gl (n # ns) idx =
     (if Device n \<noteq> []
      then (case setPorts (IP n) gl
                   (snd (getUsedPortsFor
                      (idx\<lparr>TaskNetworks := TaskNetworks idx @ [n],
                           AvailBandwidth := (AvailBandwidth idx)(Device n \<mapsto> MBits n)\<rparr>) (IP n))) of
              (idx3, Some e) \<Rightarrow> (idx3, Some e)
            | (idx3, None) \<Rightarrow> SetNode_taskNetworks gl ns idx3)
      else SetNode_taskNetworks gl ns idx)"
  by (cases "getUsedPortsFor
                      (idx\<lparr>TaskNetworks := TaskNetworks idx @ [n],
                           AvailBandwidth := (AvailBandwidth idx)(Device n \<mapsto> MBits n)\<rparr>) (IP n)")
     (simp add: Let_def)

declare SetNode_taskNetworks.simps(2) [simp del]

lemma SetNode_taskNetworks_same:
  "same_ports a b \<Longrightarrow>
   snd (SetNode_taskNetworks gl ns a) = snd (SetNode_taskNetworks gl ns b)
   \<and> same_ports (fst (SetNode_taskNetworks gl ns a)) (fst (SetNode_taskNetworks gl ns b))"
proof (induction ns arbitrary: a b)
  case Nil
  then show ?case by simp
next
  case (Cons n ns)
  show ?case
  proof (cases "Device n \<noteq> []")
    case False
    then show ?thesis using Cons.IH[OF Cons.prems] by (simp add: SetNode_taskNetworks_Cons)
  next
    case True
    let ?up = "\<lambda>i. snd (getUsedPortsFor
                      (i\<lparr>TaskNetworks := TaskNetworks i @ [n],
                           AvailBandwidth := (AvailBandwidth i)(Device n \<mapsto> MBits n)\<rparr>) (IP n))"
    have s0: "same_ports (?up a) (?up b)" using Cons.prems by (simp add: same_ports_def)
    obtain a1 ea where ra: "setPorts (IP n) gl (?up a) = (a1, ea)" by (cases "setPorts (IP n) gl (?up a)")
    obtain b1 eb where rb: "setPorts (IP n) gl (?up b) = (b1, eb)" by (cases "setPorts (IP n) gl (?up b)")
    from setPorts_same[OF s0, of "IP n" gl] ra rb have e: "ea = eb" and sp: "same_ports a1 b1" by simp_all
    show ?thesis
    proof (cases ea)
      case (Some er)
      then show ?thesis using True ra rb e sp by (simp add: SetNode_taskNetworks_Cons)
    next
      case None
      from Cons.IH[OF sp] show ?thesis using True ra rb e None by (simp add: SetNode_taskNetworks_Cons)
    qed
  qed
qed

lemma SetNode_addresses_Cons:
  "SetNode_addresses parse gl (a # as) idx =
     (case setPorts (Address a) gl
             (snd (getUsedPortsFor
                (idx\<lparr>HostNetworks := (HostNetworks idx)(Alias a \<mapsto> hostAddrs idx (Alias a) @ [a])\<rparr>)
                (Address a))) of
        (idx3, Some e) \<Rightarrow> (idx3, Some e)
      | (idx3, None) \<Rightarrow>
          if AddrReservedPorts a \<noteq> []
          then (case parse (AddrReservedPorts a) of
                  Inl msg \<Rightarrow>
                    (idx3, Some (Err (''error parsing reserved_ports for network ''
                                       @ quoted (Alias a) @ '': '' @ msg)))
                | Inr rp \<Rightarrow>
                    (case setPorts (Address a) rp idx3 of
                       (idx4, Some e) \<Rightarrow> (idx4, Some e)
                     | (idx4, None) \<Rightarrow> SetNode_addresses parse gl as idx4))
          else SetNode_addresses parse gl as idx3)"
  by (cases "getUsedPortsFor
                (idx\<lparr>HostNetworks := (HostNetworks idx)(Alias a \<mapsto> hostAddrs idx (Alias a) @ [a])\<rparr>)
                (Address a)")
     (simp add: Let_def)

declare SetNode_addresses.simps(2) [simp del]

lemma SetNode_addresses_same:
  "same_ports a b \<Longrightarrow>
   snd (SetNode_addresses parse gl as a) = snd (SetNode_addresses parse gl as b)
   \<and> same_ports (fst (SetNode_addresses parse gl as a)) (fst (SetNode_addresses parse gl as b))"
proof (induction as arbitrary: a b)
  case Nil
  then show ?case by simp
next
  case (Cons x as)
  let ?up = "\<lambda>i. snd (getUsedPortsFor
                (i\<lparr>HostNetworks := (HostNetworks i)(Alias x \<mapsto> hostAddrs i (Alias x) @ [x])\<rparr>)
                (Address x))"
  have s0: "same_ports (?up a) (?up b)" using Cons.prems by (simp add: same_ports_def)
  obtain a1 ea where ra: "setPorts (Address x) gl (?up a) = (a1, ea)" by (cases "setPorts (Address x) gl (?up a)")
  obtain b1 eb where rb: "setPorts (Address x) gl (?up b) = (b1, eb)" by (cases "setPorts (Address x) gl (?up b)")
  from setPorts_same[OF s0, of "Address x" gl] ra rb have e: "ea = eb" and sp: "same_ports a1 b1" by simp_all
  show ?case
  proof (cases ea)
    case (Some er)
    then show ?thesis using ra rb e sp by (simp add: SetNode_addresses_Cons)
  next
    case None
    show ?thesis
    proof (cases "AddrReservedPorts x \<noteq> []")
      case False
      from Cons.IH[OF sp] show ?thesis using ra rb e None False by (simp add: SetNode_addresses_Cons)
    next
      case True
      show ?thesis
      proof (cases "parse (AddrReservedPorts x)")
        case (Inl msg)
        then show ?thesis using ra rb e None True sp by (simp add: SetNode_addresses_Cons)
      next
        case (Inr rp)
        obtain a2 ea2 where ra2: "setPorts (Address x) rp a1 = (a2, ea2)" by (cases "setPorts (Address x) rp a1")
        obtain b2 eb2 where rb2: "setPorts (Address x) rp b1 = (b2, eb2)" by (cases "setPorts (Address x) rp b1")
        from setPorts_same[OF sp, of "Address x" rp] ra2 rb2 have e2: "ea2 = eb2" and sp2: "same_ports a2 b2"
          by simp_all
        show ?thesis
        proof (cases ea2)
          case (Some er)
          then show ?thesis using ra rb e None True Inr ra2 rb2 e2 sp2 by (simp add: SetNode_addresses_Cons)
        next
          case n2: None
          from Cons.IH[OF sp2] show ?thesis using ra rb e None True Inr ra2 rb2 e2 n2
            by (simp add: SetNode_addresses_Cons)
        qed
      qed
    qed
  qed
qed

lemma SetNode_nodeNetworks_same:
  "same_ports a b \<Longrightarrow>
   snd (SetNode_nodeNetworks parse gl ns a) = snd (SetNode_nodeNetworks parse gl ns b)
   \<and> same_ports (fst (SetNode_nodeNetworks parse gl ns a)) (fst (SetNode_nodeNetworks parse gl ns b))"
proof (induction ns arbitrary: a b)
  case Nil
  then show ?case by simp
next
  case (Cons n ns)
  obtain a1 ea where ra: "SetNode_addresses parse gl (Addresses n) a = (a1, ea)"
    by (cases "SetNode_addresses parse gl (Addresses n) a")
  obtain b1 eb where rb: "SetNode_addresses parse gl (Addresses n) b = (b1, eb)"
    by (cases "SetNode_addresses parse gl (Addresses n) b")
  from SetNode_addresses_same[OF Cons.prems, of parse gl "Addresses n"] ra rb
  have e: "ea = eb" and sp: "same_ports a1 b1" by simp_all
  show ?case
  proof (cases ea)
    case (Some er)
    then show ?thesis using ra rb e sp by simp
  next
    case None
    from Cons.IH[OF sp] show ?thesis using ra rb e None by simp
  qed
qed


text \<open>What \<^verbatim>\<open>SetNode\<close> marks, and the error it returns, depend on the index through its marked ports only.\<close>

lemma portsOn_setDynamicPortRange [simp]: "portsOn (setDynamicPortRange node idx) = portsOn idx"
  by (simp add: setDynamicPortRange_def Let_def split: option.splits)

lemma SetNode_same:
  assumes "same_ports a b"
  shows "snd (SetNode parse a node) = snd (SetNode parse b node)
     \<and> same_ports (fst (SetNode parse a node)) (fst (SetNode parse b node))"
proof -
  let ?tn = "taskNetworksOf node" and ?nn = "nodeNetworksOf node"
  obtain ga a1 ea where ra: "SetNode_global parse a node = ((ga, a1), ea)"
    by (cases "SetNode_global parse a node") auto
  obtain gb b1 eb where rb: "SetNode_global parse b node = ((gb, b1), eb)"
    by (cases "SetNode_global parse b node") auto
  from SetNode_global_same[OF assms, of parse node] ra rb
  have e1: "ea = eb" "ga = gb" and s1: "same_ports a1 b1" by simp_all
  obtain a2 ea2 where ra2: "SetNode_taskNetworks gb ?tn a1 = (a2, ea2)"
    by (cases "SetNode_taskNetworks gb ?tn a1")
  obtain b2 eb2 where rb2: "SetNode_taskNetworks gb ?tn b1 = (b2, eb2)"
    by (cases "SetNode_taskNetworks gb ?tn b1")
  from SetNode_taskNetworks_same[OF s1, of gb ?tn] ra2 rb2
  have e2: "ea2 = eb2" and s2: "same_ports a2 b2" by simp_all
  obtain a3 ea3 where ra3: "SetNode_nodeNetworks parse gb ?nn a2 = (a3, ea3)"
    by (cases "SetNode_nodeNetworks parse gb ?nn a2")
  obtain b3 eb3 where rb3: "SetNode_nodeNetworks parse gb ?nn b2 = (b3, eb3)"
    by (cases "SetNode_nodeNetworks parse gb ?nn b2")
  from SetNode_nodeNetworks_same[OF s2, of parse gb ?nn] ra3 rb3
  have e3: "ea3 = eb3" and s3: "same_ports a3 b3" by simp_all
  have sf: "same_ports (setDynamicPortRange node a3) (setDynamicPortRange node b3)"
    using s3 by (simp add: same_ports_def)
  show ?thesis
  proof (cases eb)
    case (Some e)
    then show ?thesis using ra rb e1 s1 by (simp add: SetNode_def)
  next
    case n1: None
    show ?thesis
    proof (cases eb2)
      case (Some e)
      then show ?thesis using ra rb e1 n1 ra2 rb2 e2 s2 by (simp add: SetNode_def)
    next
      case n2: None
      show ?thesis
      proof (cases eb3)
        case (Some e)
        then show ?thesis using ra rb e1 n1 ra2 rb2 e2 n2 ra3 rb3 e3 s3 by (simp add: SetNode_def)
      next
        case None
        then show ?thesis using ra rb e1 n1 ra2 rb2 e2 n2 ra3 rb3 e3 sf by (simp add: SetNode_def)
      qed
    qed
  qed
qed

text \<open>
  C4: \<^verbatim>\<open>SetNode\<close> run on an index without used ports, then run again on the same node
  after the used ports have been cleared, marks for every address the ports that the first
  run marked, and returns the error, if any, that the first run returned.
\<close>

theorem SetNode_again_marks_the_same_ports:
  assumes "\<forall>ip. portsOn idx ip = {}"
  shows "(\<forall>ip. portsOn (fst (SetNode parse (clearUsedPorts (fst (SetNode parse idx node))) node)) ip
               = portsOn (fst (SetNode parse idx node)) ip)
       \<and> snd (SetNode parse (clearUsedPorts (fst (SetNode parse idx node))) node)
           = snd (SetNode parse idx node)"
proof -
  have "same_ports (clearUsedPorts (fst (SetNode parse idx node))) idx"
    using assms by (simp add: same_ports_def clearUsedPorts_def portsOn_def)
  from SetNode_same[OF this, of parse node] show ?thesis by (simp add: same_ports_def)
qed

lemmas setnode_eval_defs = SetNode_def SetNode_global_def SetNode_reserved.simps SetNode_reservedPorts.simps
  SetNode_taskNetworks.simps SetNode_addresses.simps SetNode_nodeNetworks.simps setPorts.simps
  in_bitmap_def hostAddrs_def clearUsedPorts_def taskNetworksOf_def nodeNetworksOf_def
  setDynamicPortRange_def

lemma ex_node_ports:
  "portsOn (fst (SetNode ex_parse NewNetworkIndex ex_node)) ''10.0.0.2'' = {22, 80, 443}"
  "portsOn (fst (SetNode ex_parse NewNetworkIndex ex_node)) ''10.0.0.3'' = {1, 2, 3, 22}"
  "snd (SetNode ex_parse NewNetworkIndex ex_node) = None"
  by (auto simp add: ex_defs setnode_eval_defs eval_defs)

theorem SetNode_again_marks_the_same_ports_witness:
  "portsOn (fst (SetNode ex_parse (clearUsedPorts (fst (SetNode ex_parse NewNetworkIndex ex_node))) ex_node))
     ''10.0.0.2'' = {22, 80, 443}
   \<and> portsOn (fst (SetNode ex_parse (clearUsedPorts (fst (SetNode ex_parse NewNetworkIndex ex_node))) ex_node))
     ''10.0.0.3'' = {1, 2, 3, 22}
   \<and> snd (SetNode ex_parse (clearUsedPorts (fst (SetNode ex_parse NewNetworkIndex ex_node))) ex_node) = None"
  using SetNode_again_marks_the_same_ports[OF NewNetworkIndex_no_ports, of ex_parse ex_node] ex_node_ports by simp

end
